theory Spec2Isabelle
  imports Main "HOL-Library.Sublist"
begin

section \<open>Schemas, records and Python values\<close>

text \<open>
  The utilities of \<^verbatim>\<open>incydr/utils.py\<close> inspect pydantic model classes and their
  instances. A model class is a finite tree: its name, its \<^verbatim>\<open>__fields__\<close> (an
  ordered dictionary from field name to \<^verbatim>\<open>ModelField\<close>, kept as an association list
  in declaration order) and the \<^verbatim>\<open>json_encoders\<close> of its \<^verbatim>\<open>Config\<close> attribute (keyed
  by the name of a runtime type). A class that declares no \<^verbatim>\<open>Config\<close> inherits
  pydantic's, whose \<^verbatim>\<open>json_encoders\<close> is empty; a class that declares a \<^verbatim>\<open>Config\<close> of
  its own without \<^verbatim>\<open>json_encoders\<close> has none (\<open>None\<close>), and reading it raises
  \<^verbatim>\<open>AttributeError\<close>. A \<^verbatim>\<open>ModelField\<close> has its \<^verbatim>\<open>type_\<close> (a class: a model class or
  any other), its \<^verbatim>\<open>shape\<close> (singleton, list, or another container) and the \<^verbatim>\<open>extra\<close>
  dictionary of its field info. Callables (renderers, encoders) are opaque values of a
  type \<open>'f\<close>; calling one is a parameter of the functions that do so.
\<close>

datatype shape = SHAPE_SINGLETON | SHAPE_LIST | SHAPE_OTHER

datatype 'f extra_value =
    Callable 'f
  | NotCallable bool  \<comment> \<open>any other object, with its truth value\<close>

datatype 'f model_class =
  BaseModel (cls_name: string) (fields: "(string \<times> 'f ModelField) list")
    (json_encoders: "(string \<times> 'f) list option")
and 'f ModelField =
  ModelField (field_type: "'f py_type") (shape: shape)
    (extra: "(string \<times> 'f extra_value) list")
and 'f py_type =
    PlainClass string  \<comment> \<open>a class that is not a subclass of BaseModel\<close>
  | ModelClass "'f model_class"

text \<open>
  Python values: \<^verbatim>\<open>None\<close>, a scalar with the name of its runtime type and its
  content, a list, a dict, and an instance of a model class with its attribute values.
\<close>

datatype 'f py_value =
    PyNone
  | Scalar string string
  | PyList "'f py_value list"
  | PyDict "(string \<times> 'f py_value) list"
  | Instance "'f model_class" "(string \<times> 'f py_value) list"

datatype exn =
    AttributeError string
  | KeyError string
  | IndexError
  | TypeError string
  | ValueError string "string list"
  | StopIteration
  | CSVValidationError string nat  \<comment> \<open>its \<^verbatim>\<open>msg\<close> and its \<^verbatim>\<open>row\<close>\<close>

section \<open>Schema walker\<close>

text \<open>
  \<^verbatim>\<open>flatten_fields\<close>: for each \<^verbatim>\<open>name, field\<close> of \<^verbatim>\<open>model.__fields__.items()\<close>, when
  \<^verbatim>\<open>issubclass(field.type_, BaseModel) and field.shape == SHAPE_SINGLETON\<close> yield
  \<^verbatim>\<open>f"{name}.{child_name}"\<close> for every child name of the nested class, otherwise yield
  \<^verbatim>\<open>name\<close>. The generator is finite; its yields are the list.
\<close>

fun flatten_fields :: "'f model_class \<Rightarrow> string list"
  and flatten_items :: "(string \<times> 'f ModelField) list \<Rightarrow> string list"
  and flatten_item :: "string \<Rightarrow> 'f ModelField \<Rightarrow> string list"
where
  "flatten_fields (BaseModel n fs je) = flatten_items fs"
| "flatten_items [] = []"
| "flatten_items ((name, field) # rest) = flatten_item name field @ flatten_items rest"
| "flatten_item name (ModelField (ModelClass m) SHAPE_SINGLETON ex) =
     map (\<lambda>child_name. name @ ''.'' @ child_name) (flatten_fields m)"
| "flatten_item name (ModelField t sh ex) = [name]"

text \<open>String operations of \<^verbatim>\<open>get_fields\<close>: \<^verbatim>\<open>"*" in i\<close>, \<^verbatim>\<open>i.replace("*", "")\<close> and
  \<^verbatim>\<open>f.startswith(pattern)\<close>.\<close>

definition has_star :: "string \<Rightarrow> bool" where
  "has_star i = (CHR ''*'' \<in> set i)"

definition remove_stars :: "string \<Rightarrow> string" where
  "remove_stars i = filter (\<lambda>c. c \<noteq> CHR ''*'') i"

definition startswith :: "string \<Rightarrow> string \<Rightarrow> bool" where
  "startswith f pattern = prefix pattern f"

text \<open>\<^verbatim>\<open>fields = list(flatten_fields(model)) if flat else model.__fields__\<close>; iterating
  the dictionary, testing membership in it and \<^verbatim>\<open>list(fields)\<close> all go through its keys.\<close>

definition walker_fields :: "'f model_class \<Rightarrow> bool \<Rightarrow> string list" where
  "walker_fields model flat = (if flat then flatten_fields model else map fst (fields model))"

definition invalid_path_msg :: "string \<Rightarrow> string \<Rightarrow> string" where
  "invalid_path_msg i model_name =
     CHR 0x27 # i @ CHR 0x27 # '' is not a valid field path for model: '' @ model_name"

text \<open>
  The body of \<^verbatim>\<open>for i in include\<close>. A generator hands out its yields before it raises,
  so the result is the list of yields together with the exception that ended the
  iteration, if any.
\<close>

fun include_loop :: "string \<Rightarrow> string list \<Rightarrow> string list \<Rightarrow> string list \<times> exn option" where
  "include_loop model_name fs [] = ([], None)"
| "include_loop model_name fs (i # rest) =
     (let yielded =
            (if has_star i then filter (\<lambda>f. startswith f (remove_stars i)) fs
             else if i \<in> set fs then [i] else []);
          found =
            (if has_star i then list_ex (\<lambda>f. startswith f (remove_stars i)) fs
             else i \<in> set fs)
      in if \<not> found
         then (yielded, Some (ValueError (invalid_path_msg i model_name) fs))
         else (case include_loop model_name fs rest of
                 (more, err) \<Rightarrow> (yielded @ more, err)))"

definition get_fields ::
  "'f model_class \<Rightarrow> string list option \<Rightarrow> bool \<Rightarrow> string list \<times> exn option" where
  "get_fields model include flat =
     (let fs = walker_fields model flat
      in case include of
           None \<Rightarrow> (fs, None)
         | Some [] \<Rightarrow> (fs, None)
         | Some (i # rest) \<Rightarrow> include_loop (cls_name model) fs (i # rest))"

section \<open>Field resolver\<close>

text \<open>\<^verbatim>\<open>name.split(".")\<close>, and \<^verbatim>\<open>columns.split(",")\<close>: splitting at one character. The
  result is never empty.\<close>

fun split :: "char \<Rightarrow> string \<Rightarrow> string list" where
  "split sep [] = [[]]"
| "split sep (c # cs) =
     (if c = sep then [] # split sep cs
      else (case split sep cs of
              [] \<Rightarrow> [[c]]
            | w # ws \<Rightarrow> (c # w) # ws))"

text \<open>\<^verbatim>\<open>getattr(model, p)\<close> reads an attribute value of an instance; \<^verbatim>\<open>model.__fields__\<close>
  is the field dictionary of the instance's class. Neither exists on the other values.\<close>

fun getattr :: "'f py_value \<Rightarrow> string \<Rightarrow> exn + 'f py_value" where
  "getattr (Instance c vals) p =
     (case map_of vals p of None \<Rightarrow> Inl (AttributeError p) | Some v \<Rightarrow> Inr v)"
| "getattr v p = Inl (AttributeError p)"

fun dunder_fields :: "'f py_value \<Rightarrow> exn + (string \<times> 'f ModelField) list" where
  "dunder_fields (Instance c vals) = Inr (fields c)"
| "dunder_fields v = Inl (AttributeError ''__fields__'')"

text \<open>\<^verbatim>\<open>model_type.construct(**{field: None for field in model_type.__fields__})\<close>: an
  instance of the class whose every field is \<^verbatim>\<open>None\<close>; a class that is not a model
  class has no \<^verbatim>\<open>construct\<close>.\<close>

fun construct_empty :: "'f py_type \<Rightarrow> exn + 'f py_value" where
  "construct_empty (ModelClass m) = Inr (Instance m (map (\<lambda>(field, _). (field, PyNone)) (fields m)))"
| "construct_empty (PlainClass n) = Inl (AttributeError ''construct'')"

text \<open>The loop \<^verbatim>\<open>for p in path[:-1]\<close>, started on the record.\<close>

fun descend :: "'f py_value \<Rightarrow> string list \<Rightarrow> exn + 'f py_value" where
  "descend model [] = Inr model"
| "descend model (p # ps) =
     (case getattr model p of
        Inl e \<Rightarrow> Inl e
      | Inr next_model \<Rightarrow>
          if next_model = PyNone then
            (case dunder_fields model of
               Inl e \<Rightarrow> Inl e
             | Inr fs \<Rightarrow>
                 (case map_of fs p of
                    None \<Rightarrow> Inl (KeyError p)
                  | Some fld \<Rightarrow>
                      (case construct_empty (field_type fld) of
                         Inl e \<Rightarrow> Inl e
                       | Inr placeholder \<Rightarrow> descend placeholder ps)))
          else descend next_model ps)"

definition get_field_value_and_info ::
  "'f py_value \<Rightarrow> string list \<Rightarrow> exn + ('f py_value \<times> 'f ModelField option)" where
  "get_field_value_and_info model path =
     (case descend model (butlast path) of
        Inl e \<Rightarrow> Inl e
      | Inr m \<Rightarrow>
          if path = [] then Inl IndexError
          else (case getattr m (last path) of
                  Inl e \<Rightarrow> Inl e
                | Inr v \<Rightarrow>
                    (case dunder_fields m of
                       Inl e \<Rightarrow> Inl e
                     | Inr fs \<Rightarrow> Inr (v, map_of fs (last path)))))"

section \<open>Formatted iteration\<close>









section \<open>Tabular codec: reading\<close>

text \<open>
  A source is the list of its lines, each the list of the cells the csv module splits it
  into; the \<open>k\<close>-th element is physical line \<open>k\<close> (no cell spans several lines), and a
  blank line is the empty list.

  A row of \<^verbatim>\<open>csv.DictReader\<close> is a dictionary: the keys are the field names, and
  \<^verbatim>\<open>None\<close> (the reader's \<^verbatim>\<open>restkey\<close>) when the line is longer than the header; a
  value is the text of a cell, \<^verbatim>\<open>None\<close> (the reader's \<^verbatim>\<open>restval\<close>) where the line is
  shorter than the header, or the list of the surplus cells under \<^verbatim>\<open>restkey\<close>.
\<close>

datatype cell = Text string | Missing | Surplus "string list"

type_synonym csv_row = "(string option \<times> cell) list"

type_synonym csv_file = "string list list"

text \<open>\<^verbatim>\<open>d[k] = v\<close> on a dictionary kept in insertion order.\<close>

fun dict_set :: "('k \<times> 'v) list \<Rightarrow> 'k \<Rightarrow> 'v \<Rightarrow> ('k \<times> 'v) list" where
  "dict_set [] k v = [(k, v)]"
| "dict_set ((k', v') # rest) k v =
     (if k' = k then (k, v) # rest else (k', v') # dict_set rest k v)"

text \<open>
  \<^verbatim>\<open>csv.DictReader\<close> (standard library). Without \<^verbatim>\<open>fieldnames\<close> the first line is the
  header. Each further line that is not blank gives \<^verbatim>\<open>dict(zip(fieldnames, row))\<close>,
  completed with \<^verbatim>\<open>restkey\<close> or \<^verbatim>\<open>restval\<close>; \<^verbatim>\<open>line_num\<close> is then the number of lines read
  from the source so far, header and blank lines included. The result lists every row
  with the \<^verbatim>\<open>line_num\<close> the reader shows once it has yielded the row.
\<close>

definition mk_row :: "string list \<Rightarrow> string list \<Rightarrow> csv_row" where
  "mk_row fieldnames row =
     (let d = fold (\<lambda>(key, c) d. dict_set d (Some key) (Text c)) (zip fieldnames row) [];
          lf = length fieldnames;
          lr = length row
      in if lf < lr then dict_set d None (Surplus (drop lf row))
         else if lf > lr
         then fold (\<lambda>key d. dict_set d (Some key) Missing) (drop lr fieldnames) d
         else d)"

fun number_from :: "nat \<Rightarrow> 'a list \<Rightarrow> (nat \<times> 'a) list" where
  "number_from n [] = []"
| "number_from n (x # xs) = (n, x) # number_from (Suc n) xs"

fun dict_rows :: "string list \<Rightarrow> (nat \<times> string list) list \<Rightarrow> (nat \<times> csv_row) list" where
  "dict_rows fieldnames [] = []"
| "dict_rows fieldnames ((line_num, row) # rest) =
     (if row = [] then dict_rows fieldnames rest
      else (line_num, mk_row fieldnames row) # dict_rows fieldnames rest)"

definition DictReader :: "csv_file \<Rightarrow> string list option \<Rightarrow> (nat \<times> csv_row) list" where
  "DictReader f fieldnames =
     (case fieldnames of
        Some names \<Rightarrow> dict_rows names (number_from 1 f)
      | None \<Rightarrow>
          (case f of
             [] \<Rightarrow> []
           | header # rest \<Rightarrow> dict_rows header (number_from 2 rest)))"

text \<open>\<^verbatim>\<open>for key, val in row.items(): if val == "": row[key] = None\<close>\<close>

definition normalize_row :: "csv_row \<Rightarrow> csv_row" where
  "normalize_row row = map (\<lambda>(key, val). (key, if val = Text [] then Missing else val)) row"

text \<open>
  \<^verbatim>\<open>model(**row)\<close> builds a record, raises pydantic's \<^verbatim>\<open>ValidationError\<close> (with its
  text), or raises something else, which \<^verbatim>\<open>except ValidationError\<close> does not catch.
\<close>

datatype 'r construction = Constructed 'r | ValidationError string | Raised exn

definition digit_char :: "nat \<Rightarrow> char" where
  "digit_char d = ''0123456789'' ! d"

function str_nat :: "nat \<Rightarrow> string" where
  "str_nat n = (if n < 10 then [digit_char n] else str_nat (n div 10) @ [digit_char (n mod 10)])"
  by pat_completeness auto
termination
  by (relation "measure id") auto

definition bad_data_msg :: "nat \<Rightarrow> string \<Rightarrow> string \<Rightarrow> string" where
  "bad_data_msg line_num path err =
     ''Bad data in row '' @ str_nat line_num @ '' of '' @ path @ [CHR 0x0A] @ err"

text \<open>
  The loop \<^verbatim>\<open>for row in reader\<close> of \<^verbatim>\<open>read_models_from_csv\<close>, with the variable
  \<^verbatim>\<open>error\<close> as an argument, and \<^verbatim>\<open>if error: raise error\<close> once the reader is
  exhausted. The result is the records yielded and the exception raised, if any.
\<close>

fun read_models_loop ::
  "(csv_row \<Rightarrow> 'r construction) \<Rightarrow> string \<Rightarrow> exn option \<Rightarrow> (nat \<times> csv_row) list
     \<Rightarrow> 'r list \<times> exn option" where
  "read_models_loop model path error [] = ([], error)"
| "read_models_loop model path error ((line_num, row) # rest) =
     (case model (normalize_row row) of
        Constructed m \<Rightarrow>
          (case read_models_loop model path error rest of
             (more, raised) \<Rightarrow> (m # more, raised))
      | ValidationError err \<Rightarrow>
          read_models_loop model path
            (Some (CSVValidationError (bad_data_msg line_num path err) line_num)) rest
      | Raised e \<Rightarrow> ([], Some e))"

text \<open>\<^verbatim>\<open>reader = DictReader(file)\<close> in \<^verbatim>\<open>read_models_from_csv\<close>, and
  \<^verbatim>\<open>DictReader(file, fieldnames=field_names)\<close> in \<^verbatim>\<open>read_dict_from_csv\<close>; \<open>path\<close> is the text
  that \<^verbatim>\<open>{path}\<close> gives in the message, \<open>f\<close> is the content of the source.\<close>

definition read_models_from_csv ::
  "(csv_row \<Rightarrow> 'r construction) \<Rightarrow> string \<Rightarrow> csv_file \<Rightarrow> 'r list \<times> exn option" where
  "read_models_from_csv model path f = read_models_loop model path None (DictReader f None)"

definition read_dict_from_csv :: "csv_file \<Rightarrow> string list option \<Rightarrow> csv_row list" where
  "read_dict_from_csv f field_names =
     map (\<lambda>(line_num, row). normalize_row row) (DictReader f field_names)"

section \<open>Tabular codec: writing\<close>

text \<open>
  What has been written is a \<open>csv_file\<close> as well: the list of the rows, each the list
  of its cells.
  \<^verbatim>\<open>csv.DictWriter\<close> (standard library, default \<^verbatim>\<open>restval=""\<close> and
  \<^verbatim>\<open>extrasaction="raise"\<close>): \<^verbatim>\<open>writeheader\<close> writes the field names; \<^verbatim>\<open>writerow\<close>
  refuses a dictionary with a key that is not a field name, and otherwise writes, for
  each field name in order, the value under it, or \<^verbatim>\<open>restval\<close>. The underlying writer
  writes \<^verbatim>\<open>None\<close> as the empty string and anything else through \<^verbatim>\<open>str\<close>, a parameter.
\<close>

definition csv_cell :: "('f py_value \<Rightarrow> string) \<Rightarrow> 'f py_value \<Rightarrow> string" where
  "csv_cell str v = (if v = PyNone then [] else str v)"

definition writerow ::
  "('f py_value \<Rightarrow> string) \<Rightarrow> string list \<Rightarrow> (string \<times> 'f py_value) list \<Rightarrow> exn + string list" where
  "writerow str fieldnames rowdict =
     (if list_ex (\<lambda>k. k \<notin> set fieldnames) (map fst rowdict)
      then Inl (ValueError ''dict contains fields not in fieldnames''
                  (filter (\<lambda>k. k \<notin> set fieldnames) (map fst rowdict)))
      else Inr (map (\<lambda>key. case map_of rowdict key of
                               None \<Rightarrow> []
                             | Some v \<Rightarrow> csv_cell str v) fieldnames))"

text \<open>
  \<^verbatim>\<open>model.dict(by_alias=False, include=columns)\<close> (pydantic): the attribute values
  under their field names, nested records turned into dictionaries, restricted to the
  keys of \<^verbatim>\<open>include\<close> when it is a set. \<^verbatim>\<open>write_models_to_csv\<close> turns a non-empty
  \<^verbatim>\<open>columns\<close> into a set; an empty list stays a list, which pydantic refuses.
\<close>

fun dict_value :: "'f py_value \<Rightarrow> 'f py_value"
  and dict_items :: "(string \<times> 'f py_value) list \<Rightarrow> (string \<times> 'f py_value) list"
  and dict_values :: "'f py_value list \<Rightarrow> 'f py_value list"
where
  "dict_value (Instance c vals) = PyDict (dict_items vals)"
| "dict_value (PyDict kvs) = PyDict (dict_items kvs)"
| "dict_value (PyList vs) = PyList (dict_values vs)"
| "dict_value PyNone = PyNone"
| "dict_value (Scalar t s) = Scalar t s"
| "dict_items [] = []"
| "dict_items ((k, v) # rest) = (k, dict_value v) # dict_items rest"
| "dict_values [] = []"
| "dict_values (v # rest) = dict_value v # dict_values rest"

fun model_dict :: "'f py_value \<Rightarrow> string list option \<Rightarrow> exn + (string \<times> 'f py_value) list" where
  "model_dict (Instance c vals) None = Inr (dict_items vals)"
| "model_dict (Instance c vals) (Some []) = Inl (TypeError ''Unexpected type of exclude value'')"
| "model_dict (Instance c vals) (Some columns) =
     Inr (filter (\<lambda>(k, v). k \<in> set columns) (dict_items vals))"
| "model_dict v include = Inl (AttributeError ''dict'')"

text \<open>The loop \<^verbatim>\<open>for model in chain([first], models)\<close> of \<^verbatim>\<open>write_models_to_csv\<close>.\<close>

fun write_rows ::
  "('f py_value \<Rightarrow> string) \<Rightarrow> string list \<Rightarrow> string list option \<Rightarrow> 'f py_value list \<Rightarrow> csv_file
     \<Rightarrow> csv_file \<times> exn option" where
  "write_rows str fieldnames columns [] file = (file, None)"
| "write_rows str fieldnames columns (model # rest) file =
     (case model_dict model columns of
        Inl e \<Rightarrow> (file, Some e)
      | Inr rowdict \<Rightarrow>
          (case writerow str fieldnames rowdict of
             Inl e \<Rightarrow> (file, Some e)
           | Inr cells \<Rightarrow> write_rows str fieldnames columns rest (file @ [cells])))"

text \<open>
  \<^verbatim>\<open>write_models_to_csv\<close>: \<^verbatim>\<open>first = next(models)\<close> raises \<^verbatim>\<open>StopIteration\<close> on an
  empty input; the writer's field names are \<^verbatim>\<open>list(first.__fields__)\<close>.
\<close>

definition write_models_to_csv ::
  "('f py_value \<Rightarrow> string) \<Rightarrow> 'f py_value list \<Rightarrow> string list option \<Rightarrow> csv_file \<times> exn option" where
  "write_models_to_csv str models columns =
     (case models of
        [] \<Rightarrow> ([], Some StopIteration)
      | first # rest \<Rightarrow>
          (case dunder_fields first of
             Inl e \<Rightarrow> ([], Some e)
           | Inr fs \<Rightarrow>
               write_rows str (map fst fs) columns (first # rest) [map fst fs]))"

text \<open>
  \<^verbatim>\<open>write_dict_to_csv\<close> passes each mapping to \<^verbatim>\<open>flatten_fields\<close>. That is a generator
  function: the call runs none of its body and returns a generator object, which is
  not subscriptable and has no \<^verbatim>\<open>keys\<close>.
\<close>

datatype 'f row_obj = DictObj "(string \<times> 'f py_value) list" | GeneratorObj "'f row_obj"

definition is_space :: "char \<Rightarrow> bool" where
  "is_space c = (c \<in> set [CHR '' '', CHR 0x09, CHR 0x0A, CHR 0x0B, CHR 0x0C, CHR 0x0D,
                           CHR 0x1C, CHR 0x1D, CHR 0x1E, CHR 0x1F])"

definition strip :: "string \<Rightarrow> string" where
  "strip s = rev (dropWhile is_space (rev (dropWhile is_space s)))"

fun subscript :: "'f row_obj \<Rightarrow> string \<Rightarrow> exn + 'f py_value" where
  "subscript (DictObj kvs) c = (case map_of kvs c of None \<Rightarrow> Inl (KeyError c) | Some v \<Rightarrow> Inr v)"
| "subscript (GeneratorObj g) c = Inl (TypeError ''generator object is not subscriptable'')"

fun keys_method :: "'f row_obj \<Rightarrow> exn + string list" where
  "keys_method (DictObj kvs) = Inr (map fst kvs)"
| "keys_method (GeneratorObj g) = Inl (AttributeError ''keys'')"

text \<open>The comprehension \<^verbatim>\<open>{c: model[c] for c in columns}\<close>.\<close>

fun pick_columns ::
  "'f row_obj \<Rightarrow> string list \<Rightarrow> (string \<times> 'f py_value) list \<Rightarrow> exn + 'f row_obj" where
  "pick_columns model [] acc = Inr (DictObj acc)"
| "pick_columns model (c # cs) acc =
     (case subscript model c of
        Inl e \<Rightarrow> Inl e
      | Inr v \<Rightarrow> pick_columns model cs (dict_set acc c v))"

text \<open>\<^verbatim>\<open>writer.writerow(obj)\<close> starts with \<^verbatim>\<open>obj.keys()\<close>.\<close>

fun writerow_obj :: "('f py_value \<Rightarrow> string) \<Rightarrow> string list \<Rightarrow> 'f row_obj \<Rightarrow> exn + string list" where
  "writerow_obj str fieldnames (DictObj rowdict) = writerow str fieldnames rowdict"
| "writerow_obj str fieldnames (GeneratorObj g) = Inl (AttributeError ''keys'')"

fun write_dict_rows ::
  "('f py_value \<Rightarrow> string) \<Rightarrow> string list \<Rightarrow> string list option \<Rightarrow> 'f row_obj list \<Rightarrow> csv_file
     \<Rightarrow> csv_file \<times> exn option" where
  "write_dict_rows str fieldnames columns [] file = (file, None)"
| "write_dict_rows str fieldnames columns (model # rest) file =
     (case (case columns of
              Some cs \<Rightarrow> pick_columns model cs []
            | None \<Rightarrow> Inr model) of
        Inl e \<Rightarrow> (file, Some e)
      | Inr model' \<Rightarrow>
          (case writerow_obj str fieldnames (GeneratorObj model') of
             Inl e \<Rightarrow> (file, Some e)
           | Inr cells \<Rightarrow> write_dict_rows str fieldnames columns rest (file @ [cells])))"

text \<open>
  \<^verbatim>\<open>write_dict_to_csv\<close>. A non-empty \<^verbatim>\<open>columns\<close> string becomes the list of its
  comma-separated, stripped parts (\<open>Some\<close>); an absent or empty one stays false (\<open>None\<close>).
\<close>

definition write_dict_to_csv ::
  "('f py_value \<Rightarrow> string) \<Rightarrow> 'f row_obj list \<Rightarrow> string option \<Rightarrow> csv_file \<times> exn option" where
  "write_dict_to_csv str models columns =
     (let columns = (case columns of
                       Some (c # cs) \<Rightarrow> Some (map strip (split (CHR '','') (c # cs)))
                     | _ \<Rightarrow> None)
      in case models of
           [] \<Rightarrow> ([], Some StopIteration)
         | first # rest \<Rightarrow>
             (case (case columns of
                      Some cs \<Rightarrow> pick_columns first cs []
                    | None \<Rightarrow> Inr first) of
                Inl e \<Rightarrow> ([], Some e)
              | Inr first' \<Rightarrow>
                  (let first'' = GeneratorObj first'
                   in case keys_method first'' of
                        Inl e \<Rightarrow> ([], Some e)
                      | Inr fieldnames \<Rightarrow>
                          write_dict_rows str fieldnames columns (first'' # rest) [fieldnames])))"

section \<open>Vocabulary of the specification\<close>

text \<open>
  The definitions from here to the first lemma do not come from the source: they say
  what the specification's sentences mean, so that the theorems can compare them with
  the functions above, and they fix the example schemas and records of the witnesses.

  A field path is a list of field names; its canonical form joins them with dots. The
  leaf paths of a schema are enumerated depth-first in declaration order, descending
  through singular nested schemas only: a nested schema of any other shape is a leaf.
\<close>

fun dot_join :: "string list \<Rightarrow> string" where
  "dot_join [] = []"
| "dot_join [n] = n"
| "dot_join (n # m # ns) = n @ ''.'' @ dot_join (m # ns)"

fun leaf_paths :: "'f model_class \<Rightarrow> string list list"
  and leaf_paths_items :: "(string \<times> 'f ModelField) list \<Rightarrow> string list list"
  and leaf_paths_item :: "string \<Rightarrow> 'f ModelField \<Rightarrow> string list list"
where
  "leaf_paths (BaseModel n fs je) = leaf_paths_items fs"
| "leaf_paths_items [] = []"
| "leaf_paths_items ((name, field) # rest) = leaf_paths_item name field @ leaf_paths_items rest"
| "leaf_paths_item name (ModelField (ModelClass m) SHAPE_SINGLETON ex) =
     map (\<lambda>path. name # path) (leaf_paths m)"
| "leaf_paths_item name (ModelField t sh ex) = [[name]]"

text \<open>
  Include entries, in the specification's words: an entry is exact or ends in the
  wildcard marker; a wildcard entry stands for the fields that start with the prefix
  before the marker, in schema order, an exact entry for itself, once.
\<close>

definition is_wildcard :: "string \<Rightarrow> bool" where
  "is_wildcard e = (CHR ''*'' \<in> set e)"

definition non_wildcard_prefix :: "string \<Rightarrow> string" where
  "non_wildcard_prefix e = takeWhile (\<lambda>c. c \<noteq> CHR ''*'') e"

definition wildcard_at_end :: "string \<Rightarrow> bool" where
  "wildcard_at_end e = list_all (\<lambda>c. c = CHR ''*'') (dropWhile (\<lambda>c. c \<noteq> CHR ''*'') e)"

definition entry_fields :: "string list \<Rightarrow> string \<Rightarrow> string list" where
  "entry_fields fs e =
     (if is_wildcard e then filter (\<lambda>f. prefix (non_wildcard_prefix e) f) fs
      else if e \<in> set fs then [e] else [])"

text \<open>
  The condition under which the source counts a field as found for an include entry.
\<close>

definition entry_matches :: "string \<Rightarrow> string \<Rightarrow> bool" where
  "entry_matches i f = (if has_star i then startswith f (remove_stars i) else i = f)"

definition resolvable :: "string list \<Rightarrow> string \<Rightarrow> bool" where
  "resolvable fs i = list_ex (entry_matches i) fs"

text \<open>
  A schema is well formed when, at every level, the field names are distinct (they are
  the keys of a dictionary) and contain no dot (they are identifiers). A record conforms
  to a schema when it is an instance of it with a value for every field, where the
  value of a singular nested field is \<^verbatim>\<open>None\<close> or a record conforming to the nested
  schema; nothing is asked of the other fields.
\<close>

fun wf_model :: "'f model_class \<Rightarrow> bool"
  and wf_items :: "(string \<times> 'f ModelField) list \<Rightarrow> bool"
  and wf_field :: "'f ModelField \<Rightarrow> bool"
where
  "wf_model (BaseModel n fs je) = (distinct (map fst fs) \<and> wf_items fs)"
| "wf_items [] = True"
| "wf_items ((name, field) # rest) = (CHR ''.'' \<notin> set name \<and> wf_field field \<and> wf_items rest)"
| "wf_field (ModelField (ModelClass m) sh ex) = wf_model m"
| "wf_field (ModelField (PlainClass c) sh ex) = True"

fun conforms :: "'f model_class \<Rightarrow> 'f py_value \<Rightarrow> bool"
  and conforms_items :: "(string \<times> 'f ModelField) list \<Rightarrow> (string \<times> 'f py_value) list \<Rightarrow> bool"
  and conforms_field :: "'f ModelField \<Rightarrow> 'f py_value \<Rightarrow> bool"
where
  "conforms (BaseModel n fs je) v =
     (case v of Instance c vals \<Rightarrow> c = BaseModel n fs je \<and> conforms_items fs vals | _ \<Rightarrow> False)"
| "conforms_items [] vals = True"
| "conforms_items ((name, field) # rest) vals =
     ((case map_of vals name of None \<Rightarrow> False | Some v \<Rightarrow> conforms_field field v)
      \<and> conforms_items rest vals)"
| "conforms_field (ModelField (ModelClass m) SHAPE_SINGLETON ex) v = (v = PyNone \<or> conforms m v)"
| "conforms_field (ModelField t sh ex) v = True"

text \<open>
  An intermediate node of the record is absent on the path; the metadata the schema
  holds at a path, looked up name by name through singular nested schemas; a field that
  is a leaf of the flattening; the placeholder record of a class.
\<close>

fun absent_on_path :: "'f py_value \<Rightarrow> string list \<Rightarrow> bool" where
  "absent_on_path (Instance c vals) (p # q # ps) =
     (case map_of vals p of
        None \<Rightarrow> False
      | Some v \<Rightarrow> v = PyNone \<or> absent_on_path v (q # ps))"
| "absent_on_path v ps = False"

fun field_at :: "'f model_class \<Rightarrow> string list \<Rightarrow> 'f ModelField option" where
  "field_at S [] = None"
| "field_at S [n] = map_of (fields S) n"
| "field_at S (n # p) =
     (case map_of (fields S) n of
        Some (ModelField (ModelClass m) SHAPE_SINGLETON ex) \<Rightarrow> field_at m p
      | _ \<Rightarrow> None)"

fun is_leaf :: "'f ModelField \<Rightarrow> bool" where
  "is_leaf (ModelField (ModelClass m) SHAPE_SINGLETON ex) = False"
| "is_leaf (ModelField t sh ex) = True"

definition empty_instance :: "'f model_class \<Rightarrow> 'f py_value" where
  "empty_instance m = Instance m (map (\<lambda>(field, _). (field, PyNone)) (fields m))"

text \<open>
  The schema of the wildcard scenario, and the classes of the docstrings of
  \<^verbatim>\<open>flatten_fields\<close> and \<^verbatim>\<open>get_field_value_and_info\<close> with a list of children added.
\<close>

definition ex_schema :: "unit model_class" where
  "ex_schema = BaseModel ''FileEventV2''
     [(''event'', ModelField (ModelClass (BaseModel ''Event''
          [(''id'', ModelField (PlainClass ''str'') SHAPE_SINGLETON [])] (Some []))) SHAPE_SINGLETON []),
      (''file'', ModelField (ModelClass (BaseModel ''File''
          [(''name'', ModelField (PlainClass ''str'') SHAPE_SINGLETON []),
           (''size'', ModelField (PlainClass ''int'') SHAPE_SINGLETON [])] (Some []))) SHAPE_SINGLETON [])] (Some [])"

definition ex_parent :: "unit model_class" where
  "ex_parent = BaseModel ''Parent''
     [(''field'', ModelField (PlainClass ''str'') SHAPE_SINGLETON []),
      (''child'', ModelField (ModelClass (BaseModel ''Child''
          [(''field_1'', ModelField (PlainClass ''str'') SHAPE_SINGLETON []),
           (''field_2'', ModelField (PlainClass ''int'') SHAPE_SINGLETON [])] (Some []))) SHAPE_SINGLETON []),
      (''kids'', ModelField (ModelClass (BaseModel ''Child''
          [(''field_1'', ModelField (PlainClass ''str'') SHAPE_SINGLETON []),
           (''field_2'', ModelField (PlainClass ''int'') SHAPE_SINGLETON [])] (Some []))) SHAPE_LIST [])] (Some [])"

definition ex_record :: "unit py_value" where
  "ex_record = Instance ex_parent
     [(''field'', Scalar ''str'' ''default''), (''child'', PyNone), (''kids'', PyList [])]"












text \<open>
  Reading: the records of the rows that construct, and the line number and detail of
  every row that fails validation, both in the order of the source.
\<close>

fun valid_records :: "(csv_row \<Rightarrow> 'r construction) \<Rightarrow> (nat \<times> csv_row) list \<Rightarrow> 'r list" where
  "valid_records model [] = []"
| "valid_records model ((line_num, row) # rest) =
     (case model (normalize_row row) of
        Constructed m \<Rightarrow> m # valid_records model rest
      | _ \<Rightarrow> valid_records model rest)"

fun validation_failures ::
  "(csv_row \<Rightarrow> 'r construction) \<Rightarrow> (nat \<times> csv_row) list \<Rightarrow> (nat \<times> string) list" where
  "validation_failures model [] = []"
| "validation_failures model ((line_num, row) # rest) =
     (case model (normalize_row row) of
        ValidationError err \<Rightarrow> (line_num, err) # validation_failures model rest
      | _ \<Rightarrow> validation_failures model rest)"

definition no_other_exception ::
  "(csv_row \<Rightarrow> 'r construction) \<Rightarrow> (nat \<times> csv_row) list \<Rightarrow> bool" where
  "no_other_exception model rows =
     list_all (\<lambda>(line_num, row). case model (normalize_row row) of
                                     Raised e \<Rightarrow> False
                                   | _ \<Rightarrow> True) rows"

text \<open>
  A model with an optional name and a required integer size, as a constructor over
  reader rows; a source whose first and last data rows are invalid; the source of the
  specification's scenario, whose second data row is invalid; a valid source.
\<close>

definition is_digit :: "char \<Rightarrow> bool" where
  "is_digit c = (c \<in> set ''0123456789'')"

definition ex_sized :: "unit model_class" where
  "ex_sized = BaseModel ''Sized''
     [(''name'', ModelField (PlainClass ''str'') SHAPE_SINGLETON []),
      (''size'', ModelField (PlainClass ''int'') SHAPE_SINGLETON [])] (Some [])"

definition ex_sized_model :: "csv_row \<Rightarrow> unit py_value construction" where
  "ex_sized_model row =
     (case map_of row (Some ''size'') of
        Some (Text s) \<Rightarrow>
          if list_all is_digit s
          then Constructed (Instance ex_sized
                 [(''name'', case map_of row (Some ''name'') of
                               Some (Text n) \<Rightarrow> Scalar ''str'' n
                             | _ \<Rightarrow> PyNone),
                  (''size'', Scalar ''int'' s)])
          else ValidationError ''size: value is not a valid integer''
      | _ \<Rightarrow> ValidationError ''size: field required'')"

definition ex_csv_two_bad :: csv_file where
  "ex_csv_two_bad = [[''name'', ''size''], [''a'', ''big''], [[], ''7''], [''c'', []]]"

definition ex_csv_scenario :: csv_file where
  "ex_csv_scenario = [[''name'', ''size''], [''a'', ''1''], [''b'', ''big''], [''c'', ''3'']]"

definition ex_csv_ok :: csv_file where
  "ex_csv_ok = [[''name'', ''size''], [''a'', ''1''], [[], ''22'']]"

text \<open>
  A model with an aliased field, after \<^verbatim>\<open>Hash\<close> of the file events: pydantic populates
  \<^verbatim>\<open>md5_error\<close> from the key \<^verbatim>\<open>md5Error\<close> only.
\<close>

definition ex_hash :: "unit model_class" where
  "ex_hash = BaseModel ''Hash''
     [(''md5'', ModelField (PlainClass ''str'') SHAPE_SINGLETON []),
      (''md5_error'', ModelField (PlainClass ''str'') SHAPE_SINGLETON [])] (Some [])"

definition ex_hash_model :: "csv_row \<Rightarrow> unit py_value construction" where
  "ex_hash_model row =
     Constructed (Instance ex_hash
       [(''md5'', case map_of row (Some ''md5'') of
                    Some (Text s) \<Rightarrow> Scalar ''str'' s
                  | _ \<Rightarrow> PyNone),
        (''md5_error'', case map_of row (Some ''md5Error'') of
                          Some (Text s) \<Rightarrow> Scalar ''str'' s
                        | _ \<Rightarrow> PyNone)])"

text \<open>
  Examples for writing: a \<^verbatim>\<open>str\<close> on scalars, records with the fields id, name and
  size, and a raw mapping with a nested sub-mapping.
\<close>

fun ex_str :: "'f py_value \<Rightarrow> string" where
  "ex_str (Scalar t s) = s"
| "ex_str PyNone = ''None''"
| "ex_str v = ''<object>''"

definition ex_file :: "unit model_class" where
  "ex_file = BaseModel ''File''
     [(''id'', ModelField (PlainClass ''int'') SHAPE_SINGLETON []),
      (''name'', ModelField (PlainClass ''str'') SHAPE_SINGLETON []),
      (''size'', ModelField (PlainClass ''int'') SHAPE_SINGLETON [])] (Some [])"

definition ex_files :: "unit py_value list" where
  "ex_files =
     [Instance ex_file [(''id'', Scalar ''int'' ''1''), (''name'', Scalar ''str'' ''a.txt''),
                        (''size'', Scalar ''int'' ''10'')],
      Instance ex_file [(''id'', Scalar ''int'' ''2''), (''name'', PyNone),
                        (''size'', Scalar ''int'' ''20'')]]"

definition ex_mappings :: "unit row_obj list" where
  "ex_mappings =
     [DictObj [(''id'', Scalar ''int'' ''1''),
               (''file'', PyDict [(''name'', Scalar ''str'' ''a.txt'')])]]"

text \<open>
  Round trip: the attribute values of a record; the cells a record contributes to its
  row; a record that stores the cells of a reader row, column by column (\<^verbatim>\<open>None\<close> for an
  absent cell, a scalar whose \<^verbatim>\<open>str\<close> is not empty for any other); the reader row of a
  line that has one cell for each column, with its empty cells absent.
\<close>

fun is_scalar :: "'f py_value \<Rightarrow> bool" where
  "is_scalar (Scalar t s) = True"
| "is_scalar v = False"

fun attrs :: "'f py_value \<Rightarrow> (string \<times> 'f py_value) list" where
  "attrs (Instance c vals) = vals"
| "attrs v = []"

definition record_cells ::
  "('f py_value \<Rightarrow> string) \<Rightarrow> (string \<times> 'f py_value) list \<Rightarrow> string list" where
  "record_cells str vals = map (\<lambda>(k, v). csv_cell str (dict_value v)) vals"

definition stores_cells ::
  "('f py_value \<Rightarrow> string) \<Rightarrow> csv_row \<Rightarrow> (string \<times> 'f py_value) list \<Rightarrow> bool" where
  "stores_cells str row vals =
     (map (\<lambda>(k, v). Some k) vals = map fst row \<and>
      list_all2 (\<lambda>c v. if c = Missing then v = PyNone else is_scalar v \<and> str v \<noteq> [])
        (map snd row) (map snd vals))"

definition row_read :: "string list \<Rightarrow> string list \<Rightarrow> csv_row" where
  "row_read header line =
     zip (map Some header) (map (\<lambda>c. if c = [] then Missing else Text c) line)"

text \<open>The number a decimal numeral denotes.\<close>

definition decimal :: "string \<Rightarrow> nat" where
  "decimal s = foldl (\<lambda>a c. 10 * a + (of_char c - 48)) 0 s"

section \<open>Properties of the schema walker\<close>

lemma leaf_paths_nonempty:
  "\<forall>p \<in> set (leaf_paths (S :: 'f model_class)). p \<noteq> []"
  "\<forall>p \<in> set (leaf_paths_items (fs :: (string \<times> 'f ModelField) list)). p \<noteq> []"
  "\<forall>p \<in> set (leaf_paths_item name (fld :: 'f ModelField)). p \<noteq> []"
  by (induction S and fs and name fld rule: leaf_paths_leaf_paths_items_leaf_paths_item.induct) auto

lemma dot_join_Cons: "p \<noteq> [] \<Longrightarrow> dot_join (n # p) = n @ ''.'' @ dot_join p"
  by (cases p) auto

lemma flatten_leaf_paths:
  "flatten_fields (S :: 'f model_class) = map dot_join (leaf_paths S)"
  "flatten_items (fs :: (string \<times> 'f ModelField) list) = map dot_join (leaf_paths_items fs)"
  "flatten_item name (fld :: 'f ModelField) = map dot_join (leaf_paths_item name fld)"
proof (induction S and fs and name fld rule: flatten_fields_flatten_items_flatten_item.induct)
  case (4 name m ex)
  have "\<forall>p \<in> set (leaf_paths m). p \<noteq> []" by (rule leaf_paths_nonempty)
  then show ?case using 4 by (simp add: dot_join_Cons)
qed simp_all

lemma flatten_items_append: "flatten_items (fs @ gs) = flatten_items fs @ flatten_items gs"
  by (induction fs) auto

lemma flatten_item_not_singleton: "sh \<noteq> SHAPE_SINGLETON \<Longrightarrow> flatten_item name (ModelField t sh ex) = [name]"
  by (cases t; cases sh) auto

lemma filter_is_takeWhile:
  "list_all (\<lambda>c. c = x) (dropWhile (\<lambda>c. c \<noteq> x) e) \<Longrightarrow> filter (\<lambda>c. c \<noteq> x) e = takeWhile (\<lambda>c. c \<noteq> x) e"
proof (induction e)
  case Nil
  then show ?case by simp
next
  case (Cons a e)
  show ?case
  proof (cases "a = x")
    case True
    with Cons.prems have "list_all (\<lambda>c. c = x) e" by simp
    then have "filter (\<lambda>c. c \<noteq> x) e = []" by (simp add: list_all_iff filter_empty_conv)
    with True show ?thesis by simp
  next
    case False
    with Cons show ?thesis by simp
  qed
qed

lemma remove_stars_prefix: "wildcard_at_end e \<Longrightarrow> remove_stars e = non_wildcard_prefix e"
  unfolding wildcard_at_end_def remove_stars_def non_wildcard_prefix_def
  by (rule filter_is_takeWhile)

lemma include_loop_ok:
  "list_all (\<lambda>e. list_ex (entry_matches e) fs) inc \<Longrightarrow>
   include_loop mn fs inc =
     (concat (map (\<lambda>i. if has_star i then filter (entry_matches i) fs else [i]) inc), None)"
  by (induction inc) (auto simp: entry_matches_def list_ex_iff Let_def cong: filter_cong)

lemma include_loop_general:
  "include_loop mn fs inc =
     (concat (map (\<lambda>i. if has_star i then filter (entry_matches i) fs else [i])
                (takeWhile (\<lambda>e. list_ex (entry_matches e) fs) inc)),
      case dropWhile (\<lambda>e. list_ex (entry_matches e) fs) inc of
        [] \<Rightarrow> None
      | bad # _ \<Rightarrow> Some (ValueError (invalid_path_msg bad mn) fs))"
  by (induction inc) (auto simp: entry_matches_def list_ex_iff Let_def cong: filter_cong)

lemma count_list_filter_distinct:
  "distinct fs \<Longrightarrow> f \<in> set fs \<Longrightarrow> count_list (filter P fs) f = (if P f then 1 else 0)"
  by (induction fs) auto

lemma count_list_concat: "count_list (concat xss) f = sum_list (map (\<lambda>xs. count_list xs f) xss)"
  by (induction xss) auto

lemma length_filter_sum: "length (filter P xs) = sum_list (map (\<lambda>x. if P x then 1 else 0) xs)"
  by (induction xs) auto

lemma found_iff:
  "(if has_star i then list_ex (\<lambda>f. startswith f (remove_stars i)) fs else i \<in> set fs)
     = list_ex (entry_matches i) fs"
  by (auto simp: entry_matches_def list_ex_iff)

lemma include_loop_no_error:
  "snd (include_loop mn fs inc) = None \<Longrightarrow> list_all (\<lambda>e. list_ex (entry_matches e) fs) inc"
proof (induction inc)
  case Nil
  then show ?case by simp
next
  case (Cons i inc)
  have f: "list_ex (entry_matches i) fs"
    using Cons.prems by (simp add: Let_def found_iff split: if_splits)
  then have "snd (include_loop mn fs inc) = None"
    using Cons.prems by (simp add: Let_def found_iff split: prod.splits)
  with Cons.IH f show ?case by simp
qed

lemma get_fields_Some:
  "incl \<noteq> [] \<Longrightarrow>
     get_fields S (Some incl) flat = include_loop (cls_name S) (walker_fields S flat) incl"
  by (cases incl) (simp_all add: get_fields_def del: include_loop.simps)

text \<open>
  C10 (no deduplication across include entries). When the fields are distinct and no
  include entry fails, a field occurs in the output of \<^verbatim>\<open>get_fields\<close> once for each
  include entry that matches it: an exact entry and a wildcard entry covering the same
  field yield it twice.
\<close>

theorem get_fields_no_dedup:
  assumes "distinct (walker_fields S flat)" and "f \<in> set (walker_fields S flat)"
    and "incl \<noteq> []" and "snd (get_fields S (Some incl) flat) = None"
  shows "count_list (fst (get_fields S (Some incl) flat)) f
           = length (filter (\<lambda>e. entry_matches e f) incl)"
proof -
  let ?fs = "walker_fields S flat"
  have g: "get_fields S (Some incl) flat = include_loop (cls_name S) ?fs incl"
    using assms(3) by (rule get_fields_Some)
  then have ok: "list_all (\<lambda>e. list_ex (entry_matches e) ?fs) incl"
    using assms(4) include_loop_no_error by metis
  have each: "count_list (if has_star e then filter (entry_matches e) ?fs else [e]) f
                = (if entry_matches e f then 1 else 0)" for e
    using assms(1,2) by (simp add: count_list_filter_distinct) (simp add: entry_matches_def)
  show ?thesis
    by (simp only: g include_loop_ok[OF ok] fst_conv count_list_concat map_map o_def each length_filter_sum)
qed

lemma entry_matches_wf:
  "wildcard_at_end e \<Longrightarrow>
     entry_matches e f = (if is_wildcard e then prefix (non_wildcard_prefix e) f else e = f)"
  by (simp add: entry_matches_def has_star_def is_wildcard_def startswith_def remove_stars_prefix)

lemma entry_fields_wf:
  assumes "wildcard_at_end e" and "entry_fields fs e \<noteq> []"
  shows "list_ex (entry_matches e) fs"
    and "(if has_star e then filter (entry_matches e) fs else [e]) = entry_fields fs e"
proof -
  have m: "entry_matches e = (\<lambda>f. if is_wildcard e then prefix (non_wildcard_prefix e) f else e = f)"
    using entry_matches_wf[OF assms(1)] by auto
  show "list_ex (entry_matches e) fs"
  proof (cases "is_wildcard e")
    case True
    then have "filter (\<lambda>f. prefix (non_wildcard_prefix e) f) fs \<noteq> []"
      using assms(2) by (simp add: entry_fields_def)
    then obtain f where "f \<in> set fs" "prefix (non_wildcard_prefix e) f"
      by (auto simp: filter_empty_conv)
    then show ?thesis using True by (auto simp: m list_ex_iff)
  next
    case False
    then have "e \<in> set fs" using assms(2) by (simp add: entry_fields_def split: if_splits)
    then show ?thesis using False by (auto simp: m list_ex_iff)
  qed
  show "(if has_star e then filter (entry_matches e) fs else [e]) = entry_fields fs e"
    using assms(2) by (auto simp: m entry_fields_def has_star_def is_wildcard_def split: if_splits)
qed

text \<open>
  C6 (include filtering). For a non-empty include list whose entries are exact names or
  end in the wildcard marker, each matching at least one field, \<^verbatim>\<open>get_fields\<close> yields
  the matches of the entries one entry after the other, in the order of the include
  list: for a wildcard entry every field that starts with the prefix before the marker,
  in schema order; for an exact entry the entry itself, once. No exception is raised.
\<close>

theorem get_fields_include:
  assumes "incl \<noteq> []" and "list_all wildcard_at_end incl"
    and "list_all (\<lambda>e. entry_fields (walker_fields S flat) e \<noteq> []) incl"
  shows "get_fields S (Some incl) flat
           = (concat (map (entry_fields (walker_fields S flat)) incl), None)"
proof -
  let ?fs = "walker_fields S flat"
  have ok: "list_all (\<lambda>e. list_ex (entry_matches e) ?fs) incl"
    using assms(2,3) entry_fields_wf(1) by (fastforce simp: list_all_iff)
  have eq: "map (\<lambda>i. if has_star i then filter (entry_matches i) ?fs else [i]) incl
              = map (entry_fields ?fs) incl"
    using assms(2,3) entry_fields_wf(2) by (intro map_cong refl) (auto simp: list_all_iff)
  show ?thesis
    by (simp only: get_fields_Some[OF assms(1)] include_loop_ok[OF ok] eq)
qed

lemma dropWhile_hd_fails: "x \<in> set xs \<Longrightarrow> \<not> P x \<Longrightarrow> \<exists>b bs. dropWhile P xs = b # bs \<and> \<not> P b \<and> b \<in> set xs"
  by (induction xs) auto

text \<open>
  C7 (unresolvable include pattern). If some include entry, exact or wildcard, matches
  no field, the include list splits into the entries before the first such entry, that
  entry and the rest: \<^verbatim>\<open>get_fields\<close> yields the matches of the entries before it and then
  raises \<^verbatim>\<open>ValueError\<close>, without looking at the rest; the exception carries the message
  \<^verbatim>\<open>'<entry>' is not a valid field path for model: <class name>\<close> with the entry between
  quotes, and the complete list of fields.
  Conversely, when \<^verbatim>\<open>get_fields\<close> ends without an exception, every include entry has
  a match among the yielded fields: no entry is dropped silently.
\<close>

theorem get_fields_unresolvable:
  "(e \<in> set incl \<and> \<not> resolvable (walker_fields S flat) e \<longrightarrow>
      (\<exists>before bad rest.
         incl = before @ bad # rest \<and> list_all (resolvable (walker_fields S flat)) before \<and>
         \<not> resolvable (walker_fields S flat) bad \<and>
         get_fields S (Some incl) flat
           = (concat (map (\<lambda>i. if has_star i
                                then filter (entry_matches i) (walker_fields S flat)
                                else [i]) before),
              Some (ValueError
                      (CHR 0x27 # bad @ CHR 0x27 # '' is not a valid field path for model: ''
                         @ cls_name S) (walker_fields S flat))))) \<and>
   (incl \<noteq> [] \<and> snd (get_fields S (Some incl) flat) = None \<longrightarrow>
      (\<forall>i \<in> set incl. \<exists>f \<in> set (fst (get_fields S (Some incl) flat)). entry_matches i f))"
proof (intro conjI impI)
  let ?fs = "walker_fields S flat"
  assume a: "e \<in> set incl \<and> \<not> resolvable ?fs e"
  then have ne: "incl \<noteq> []" by auto
  obtain b bs where d: "dropWhile (resolvable ?fs) incl = b # bs" "\<not> resolvable ?fs b"
    using dropWhile_hd_fails[of e incl "resolvable ?fs"] a by auto
  have r: "resolvable ?fs = (\<lambda>e. list_ex (entry_matches e) ?fs)"
    by (auto simp: resolvable_def)
  have split_incl: "incl = takeWhile (resolvable ?fs) incl @ b # bs"
    using d(1) takeWhile_dropWhile_id[of "resolvable ?fs" incl] by simp
  have tw: "list_all (resolvable ?fs) (takeWhile (resolvable ?fs) incl)"
    by (simp add: list_all_iff) (meson set_takeWhileD)
  have "get_fields S (Some incl) flat
      = (concat (map (\<lambda>i. if has_star i then filter (entry_matches i) ?fs else [i])
                   (takeWhile (resolvable ?fs) incl)),
         Some (ValueError
                 (CHR 0x27 # b @ CHR 0x27 # '' is not a valid field path for model: ''
                    @ cls_name S) ?fs))"
    using d(1) by (simp only: get_fields_Some[OF ne] include_loop_general[of "cls_name S" ?fs incl]
        r[symmetric] list.case invalid_path_msg_def)
  with d(2) split_incl tw
  show "\<exists>before bad rest.
         incl = before @ bad # rest \<and> list_all (resolvable ?fs) before \<and> \<not> resolvable ?fs bad \<and>
         get_fields S (Some incl) flat
           = (concat (map (\<lambda>i. if has_star i then filter (entry_matches i) ?fs else [i]) before),
              Some (ValueError
                      (CHR 0x27 # bad @ CHR 0x27 # '' is not a valid field path for model: ''
                         @ cls_name S) ?fs))"
    by blast
next
  let ?fs = "walker_fields S flat"
  assume a: "incl \<noteq> [] \<and> snd (get_fields S (Some incl) flat) = None"
  then have g: "get_fields S (Some incl) flat = include_loop (cls_name S) ?fs incl"
    by (simp add: get_fields_Some)
  then have ok: "list_all (\<lambda>e. list_ex (entry_matches e) ?fs) incl"
    using a include_loop_no_error by metis
  show "\<forall>i \<in> set incl. \<exists>f \<in> set (fst (get_fields S (Some incl) flat)). entry_matches i f"
  proof
    fix i assume i: "i \<in> set incl"
    then obtain f where f: "f \<in> set ?fs" "entry_matches i f"
      using ok by (auto simp: list_all_iff list_ex_iff)
    have "f \<in> set (if has_star i then filter (entry_matches i) ?fs else [i])"
      using f by (auto simp: entry_matches_def)
    then have "f \<in> set (concat (map (\<lambda>i. if has_star i then filter (entry_matches i) ?fs else [i]) incl))"
      using i unfolding set_concat by (intro UN_I[of "if has_star i then filter (entry_matches i) ?fs else [i]"]) simp_all
    then have "f \<in> set (fst (get_fields S (Some incl) flat))"
      by (simp only: g include_loop_ok[OF ok] fst_conv)
    with f show "\<exists>f \<in> set (fst (get_fields S (Some incl) flat)). entry_matches i f" by blast
  qed
qed

lemma ex_schema_flat: "walker_fields ex_schema True = [''event.id'', ''file.name'', ''file.size'']"
  by (simp add: walker_fields_def ex_schema_def)

theorem get_fields_include_witness:
  "[''file.*''] \<noteq> [] \<and> list_all wildcard_at_end [''file.*''] \<and>
   list_all (\<lambda>e. entry_fields (walker_fields ex_schema True) e \<noteq> []) [''file.*''] \<and>
   get_fields ex_schema (Some [''file.*'']) True = ([''file.name'', ''file.size''], None)"
proof -
  have h1: "[''file.*''] \<noteq> []" by simp
  have h2: "list_all wildcard_at_end [''file.*'']" by (simp add: wildcard_at_end_def)
  have e: "entry_fields (walker_fields ex_schema True) ''file.*'' = [''file.name'', ''file.size'']"
    by (simp add: ex_schema_flat entry_fields_def is_wildcard_def non_wildcard_prefix_def)
  have h3: "list_all (\<lambda>e. entry_fields (walker_fields ex_schema True) e \<noteq> []) [''file.*'']"
    by (simp add: e)
  show ?thesis using h1 h2 h3 get_fields_include[OF h1 h2 h3] by (simp add: e)
qed

theorem get_fields_unresolvable_witness:
  "''bogus'' \<in> set [''file.*'', ''bogus'', ''event.id''] \<and>
   \<not> resolvable (walker_fields ex_schema True) ''bogus'' \<and>
   get_fields ex_schema (Some [''file.*'', ''bogus'', ''event.id'']) True
     = ([''file.name'', ''file.size''],
        Some (ValueError
                (CHR 0x27 # ''bogus'' @ CHR 0x27 # '' is not a valid field path for model: FileEventV2'')
                [''event.id'', ''file.name'', ''file.size''])) \<and>
   snd (get_fields ex_schema (Some [''file.*'']) True) = None \<and>
   (\<exists>f \<in> set (fst (get_fields ex_schema (Some [''file.*'']) True)). entry_matches ''file.*'' f)"
proof -
  let ?fs = "walker_fields ex_schema True"
  let ?incl = "[''file.*'', ''bogus'', ''event.id'']"
  have h1: "''bogus'' \<in> set ?incl" by simp
  have h2: "\<not> resolvable ?fs ''bogus''"
    by (simp add: ex_schema_flat resolvable_def entry_matches_def has_star_def)
  have r1: "resolvable ?fs ''file.*''"
    by (simp add: ex_schema_flat resolvable_def entry_matches_def has_star_def startswith_def
        remove_stars_def)
  have n: "cls_name ex_schema = ''FileEventV2''" by (simp add: ex_schema_def)
  from get_fields_unresolvable[of "''bogus''" ?incl ex_schema True] h1 h2
  obtain before bad rest where b: "?incl = before @ bad # rest"
    "list_all (resolvable ?fs) before" "\<not> resolvable ?fs bad"
    "get_fields ex_schema (Some ?incl) True
       = (concat (map (\<lambda>i. if has_star i then filter (entry_matches i) ?fs else [i]) before),
          Some (ValueError
                  (CHR 0x27 # bad @ CHR 0x27 # '' is not a valid field path for model: ''
                     @ cls_name ex_schema) ?fs))"
    by blast
  have "before = [''file.*''] \<and> bad = ''bogus''"
  proof (cases before)
    case Nil
    with b(1,3) r1 show ?thesis by simp
  next
    case (Cons x xs)
    with b(1) have x: "x = ''file.*''" and rest1: "[''bogus'', ''event.id''] = xs @ bad # rest"
      by simp_all
    show ?thesis
    proof (cases xs)
      case Nil
      with rest1 Cons x show ?thesis by simp
    next
      case (Cons y ys)
      with rest1 have "y = ''bogus''" by simp
      with b(2) \<open>before = x # xs\<close> Cons h2 show ?thesis by simp
    qed
  qed
  then have p1: "get_fields ex_schema (Some ?incl) True
     = ([''file.name'', ''file.size''],
        Some (ValueError
                (CHR 0x27 # ''bogus'' @ CHR 0x27 # '' is not a valid field path for model: FileEventV2'')
                [''event.id'', ''file.name'', ''file.size'']))"
    using b(4) unfolding n
    by (simp add: ex_schema_flat has_star_def entry_matches_def startswith_def remove_stars_def)
  have g: "get_fields ex_schema (Some [''file.*'']) True = ([''file.name'', ''file.size''], None)"
    by (simp add: get_fields_def ex_schema_flat has_star_def startswith_def remove_stars_def)
  have p2: "snd (get_fields ex_schema (Some [''file.*'']) True) = None" by (simp add: g)
  have p3: "\<exists>f \<in> set (fst (get_fields ex_schema (Some [''file.*'']) True)). entry_matches ''file.*'' f"
    using get_fields_unresolvable[of "''x''" "[''file.*'']" ex_schema True] p2 by simp
  show ?thesis using h1 h2 p1 p2 p3 by blast
qed

theorem get_fields_no_dedup_witness:
  "distinct (walker_fields ex_schema True) \<and> ''file.name'' \<in> set (walker_fields ex_schema True) \<and>
   snd (get_fields ex_schema (Some [''file.name'', ''file.*'']) True) = None \<and>
   fst (get_fields ex_schema (Some [''file.name'', ''file.*'']) True)
     = [''file.name'', ''file.name'', ''file.size''] \<and>
   count_list (fst (get_fields ex_schema (Some [''file.name'', ''file.*'']) True)) ''file.name'' = 2"
proof -
  have h1: "distinct (walker_fields ex_schema True)" by (simp add: ex_schema_flat)
  have h2: "''file.name'' \<in> set (walker_fields ex_schema True)" by (simp add: ex_schema_flat)
  have h3: "[''file.name'', ''file.*''] \<noteq> []" by simp
  have g: "get_fields ex_schema (Some [''file.name'', ''file.*'']) True
             = ([''file.name'', ''file.name'', ''file.size''], None)"
    by (simp add: get_fields_def ex_schema_flat has_star_def startswith_def remove_stars_def)
  have h4: "snd (get_fields ex_schema (Some [''file.name'', ''file.*'']) True) = None"
    by (simp add: g)
  have "count_list (fst (get_fields ex_schema (Some [''file.name'', ''file.*'']) True)) ''file.name''
          = length (filter (\<lambda>e. entry_matches e ''file.name'') [''file.name'', ''file.*''])"
    by (rule get_fields_no_dedup[OF h1 h2 h3 h4])
  also have "\<dots> = 2"
    by (simp add: entry_matches_def has_star_def startswith_def remove_stars_def)
  finally show ?thesis using h1 h2 h4 g by simp
qed


section \<open>Properties of the field resolver\<close>

lemma split_no_sep: "sep \<notin> set s \<Longrightarrow> split sep s = [s]"
  by (induction s) auto

lemma split_append_sep: "sep \<notin> set s \<Longrightarrow> split sep (s @ sep # t) = s # split sep t"
  by (induction s) auto

lemma split_dot_join:
  "p \<noteq> [] \<Longrightarrow> \<forall>n \<in> set p. CHR ''.'' \<notin> set n \<Longrightarrow> split (CHR ''.'') (dot_join p) = p"
proof (induction p rule: dot_join.induct)
  case 1
  then show ?case by simp
next
  case (2 n)
  then show ?case by (simp add: split_no_sep)
next
  case (3 n m ns)
  then have "split (CHR ''.'') (dot_join (m # ns)) = m # ns" by simp
  moreover have "CHR ''.'' \<notin> set n" using 3 by simp
  ultimately show ?case using split_append_sep[of "CHR ''.''" n "dot_join (m # ns)"] by simp
qed

lemma gfvi_single:
  "get_field_value_and_info r [n] =
     (case getattr r n of Inl e \<Rightarrow> Inl e
      | Inr v \<Rightarrow> (case dunder_fields r of Inl e \<Rightarrow> Inl e | Inr fs \<Rightarrow> Inr (v, map_of fs n)))"
  by (simp add: get_field_value_and_info_def split: sum.splits)

lemma gfvi_cons:
  "p \<noteq> [] \<Longrightarrow> get_field_value_and_info r (n # p) =
     (case getattr r n of Inl e \<Rightarrow> Inl e
      | Inr next_model \<Rightarrow>
          if next_model = PyNone then
            (case dunder_fields r of Inl e \<Rightarrow> Inl e
             | Inr fs \<Rightarrow>
                 (case map_of fs n of None \<Rightarrow> Inl (KeyError n)
                  | Some fld \<Rightarrow>
                      (case construct_empty (field_type fld) of Inl e \<Rightarrow> Inl e
                       | Inr placeholder \<Rightarrow> get_field_value_and_info placeholder p)))
          else get_field_value_and_info next_model p)"
  by (simp add: get_field_value_and_info_def split: sum.splits option.splits)

lemma leaf_paths_items_mem:
  "path \<in> set (leaf_paths_items fs) \<Longrightarrow>
     \<exists>name fld. (name, fld) \<in> set fs \<and> path \<in> set (leaf_paths_item name fld)"
  by (induction fs) fastforce+

lemma leaf_paths_item_mem:
  "path \<in> set (leaf_paths_item name fld) \<Longrightarrow>
     path = [name] \<or>
     (\<exists>m ex p. fld = ModelField (ModelClass m) SHAPE_SINGLETON ex \<and> path = name # p
        \<and> p \<noteq> [] \<and> p \<in> set (leaf_paths m))"
proof (cases fld)
  case (ModelField t sh ex)
  assume a: "path \<in> set (leaf_paths_item name fld)"
  show ?thesis
  proof (cases t)
    case (PlainClass c)
    with a ModelField show ?thesis by simp
  next
    case (ModelClass m)
    show ?thesis
    proof (cases sh)
      case SHAPE_SINGLETON
      with a ModelField ModelClass obtain p where "path = name # p" "p \<in> set (leaf_paths m)" by auto
      moreover have "p \<noteq> []" using calculation leaf_paths_nonempty(1) by blast
      ultimately show ?thesis using ModelField ModelClass SHAPE_SINGLETON by simp
    qed (use a ModelField ModelClass in simp_all)
  qed
qed

lemma conforms_items_mem:
  "conforms_items fs vals \<Longrightarrow> (name, fld) \<in> set fs \<Longrightarrow>
     \<exists>v. map_of vals name = Some v \<and> conforms_field fld v"
  by (induction fs) (fastforce split: option.splits)+

lemma wf_items_mem:
  "wf_items fs \<Longrightarrow> (name, fld) \<in> set fs \<Longrightarrow> CHR ''.'' \<notin> set name \<and> wf_field fld"
  by (induction fs) auto

lemma conforms_field_None: "conforms_field fld PyNone"
proof (cases fld)
  case (ModelField t sh ex)
  then show ?thesis by (cases t; cases sh) simp_all
qed

lemma map_of_all_none:
  "name \<in> fst ` set fs \<Longrightarrow> map_of (map (\<lambda>(field, _). (field, PyNone)) fs) name = Some PyNone"
  by (induction fs) auto

lemma conforms_items_all_none:
  "fst ` set fs \<subseteq> fst ` set gs \<Longrightarrow>
     conforms_items (fs :: (string \<times> 'f ModelField) list) (map (\<lambda>(field, _). (field, PyNone)) gs)"
proof (induction fs)
  case Nil
  then show ?case by simp
next
  case (Cons a fs)
  obtain name fld where a: "a = (name, fld)" by (cases a)
  have "name \<in> fst ` set gs" using Cons.prems a by auto
  then have "map_of (map (\<lambda>(field, _). (field, PyNone :: 'f py_value)) gs) name = Some PyNone"
    by (rule map_of_all_none)
  moreover have "conforms_items fs (map (\<lambda>(field, _). (field, PyNone)) gs)"
    using Cons by auto
  ultimately show ?case using a by (simp add: conforms_field_None)
qed

lemma conforms_empty_instance: "conforms m (empty_instance m)"
  by (cases m) (simp add: empty_instance_def conforms_items_all_none)

lemma getattr_empty_instance:
  "name \<in> fst ` set (fields m) \<Longrightarrow> getattr (empty_instance m) name = Inr PyNone"
  by (simp add: empty_instance_def map_of_all_none)

lemma resolve_leaf:
  "wf_model S \<Longrightarrow> conforms S r \<Longrightarrow> path \<in> set (leaf_paths S) \<Longrightarrow>
     \<exists>v f. get_field_value_and_info r path = Inr (v, Some f) \<and> field_at S path = Some f \<and>
       (r = empty_instance S \<or> absent_on_path r path \<longrightarrow> v = PyNone)"
proof (induction path arbitrary: S r)
  case Nil
  then show ?case using leaf_paths_nonempty(1) by blast
next
  case (Cons name p)
  obtain n fs je where S: "S = BaseModel n fs je" by (cases S)
  from Cons.prems(2) obtain vals where r: "r = Instance S vals" and ci: "conforms_items fs vals"
    by (auto simp: S split: py_value.splits)
  from Cons.prems(1) have d: "distinct (map fst fs)" and wi: "wf_items fs" by (simp_all add: S)
  from Cons.prems(3) obtain nm fld where
    mem: "(nm, fld) \<in> set fs" and pi: "name # p \<in> set (leaf_paths_item nm fld)"
    using leaf_paths_items_mem[of "name # p" fs] by (auto simp: S)
  from leaf_paths_item_mem[OF pi] have nm: "nm = name" by auto
  have look: "map_of fs name = Some fld" using d mem nm by simp
  from conforms_items_mem[OF ci mem] obtain v where
    v: "map_of vals name = Some v" and cf: "conforms_field fld v" using nm by auto
  have ga: "getattr r name = Inr v" by (simp add: r v)
  have df: "dunder_fields r = Inr fs" by (simp add: r S)
  have infs: "name \<in> fst ` set (fields S)" using mem nm by (force simp: S)
  from leaf_paths_item_mem[OF pi] show ?case
  proof (elim disjE exE conjE)
    assume "name # p = [nm]"
    then have p: "p = []" by simp
    have "r = empty_instance S \<Longrightarrow> v = PyNone"
      using ga getattr_empty_instance[OF infs] by simp
    then show ?thesis
      by (simp add: p gfvi_single ga df look S)
  next
    fix m ex q
    assume fld: "fld = ModelField (ModelClass m) SHAPE_SINGLETON ex"
      and eq: "name # p = nm # q" and qne: "q \<noteq> []" and q: "q \<in> set (leaf_paths m)"
    have pq: "p = q" using eq by simp
    have wm: "wf_model m" using wf_items_mem[OF wi mem] fld by simp
    have fa: "field_at S (name # q) = field_at m q"
    proof (cases q)
      case Nil
      with qne show ?thesis by simp
    next
      case (Cons a list)
      then show ?thesis using look fld by (simp add: S)
    qed
    show ?thesis
    proof (cases "v = PyNone")
      case True
      from Cons.IH[OF wm conforms_empty_instance, of ] q pq
      obtain v' f where
        "get_field_value_and_info (empty_instance m) p = Inr (v', Some f)"
        "field_at m p = Some f" "v' = PyNone"
        by blast
      then show ?thesis
        using qne pq True
        by (simp add: gfvi_cons ga df look fld fa empty_instance_def)
    next
      case False
      then have cm: "conforms m v" using cf fld by simp
      from Cons.IH[OF wm cm] q pq
      obtain v' f where res:
        "get_field_value_and_info v p = Inr (v', Some f)"
        "field_at m p = Some f" "v = empty_instance m \<or> absent_on_path v p \<longrightarrow> v' = PyNone"
        by blast
      have "r \<noteq> empty_instance S"
        using False ga getattr_empty_instance[OF infs] by auto
      moreover have "absent_on_path r (name # p) = absent_on_path v p"
      proof (cases p)
        case Nil
        with qne pq show ?thesis by simp
      next
        case (Cons a list)
        then show ?thesis using False by (simp add: r v)
      qed
      ultimately show ?thesis
        using qne pq False res by (simp add: gfvi_cons ga fa)
    qed
  qed
qed

lemma leaf_paths_no_dot:
  "wf_model (S :: 'f model_class) \<Longrightarrow> \<forall>p \<in> set (leaf_paths S). \<forall>n \<in> set p. CHR ''.'' \<notin> set n"
  "wf_items (fs :: (string \<times> 'f ModelField) list) \<Longrightarrow>
     \<forall>p \<in> set (leaf_paths_items fs). \<forall>n \<in> set p. CHR ''.'' \<notin> set n"
  "CHR ''.'' \<notin> set name \<Longrightarrow> wf_field (fld :: 'f ModelField) \<Longrightarrow>
     \<forall>p \<in> set (leaf_paths_item name fld). \<forall>n \<in> set p. CHR ''.'' \<notin> set n"
  by (induction S and fs and name fld rule: leaf_paths_leaf_paths_items_leaf_paths_item.induct) auto

lemma resolve_top_level:
  assumes "wf_model S" and "conforms S r" and "name \<in> set (map fst (fields S))"
  shows "\<exists>v f. get_field_value_and_info r [name] = Inr (v, Some f) \<and> field_at S [name] = Some f"
proof -
  obtain n fs je where S: "S = BaseModel n fs je" by (cases S)
  from assms(2) obtain vals where r: "r = Instance S vals" and ci: "conforms_items fs vals"
    by (auto simp: S split: py_value.splits)
  from assms(3) obtain fld where mem: "(name, fld) \<in> set fs" by (auto simp: S)
  from assms(1) have "distinct (map fst fs)" by (simp add: S)
  then have look: "map_of fs name = Some fld" using mem by simp
  from conforms_items_mem[OF ci mem] obtain v where v: "map_of vals name = Some v" by auto
  show ?thesis by (simp add: gfvi_single r v look S)
qed

lemma include_loop_subset: "set (fst (include_loop mn fs inc)) \<subseteq> set fs"
  by (induction inc) (auto simp: Let_def split: prod.splits)

lemma get_fields_subset: "set (fst (get_fields S incl flat)) \<subseteq> set (walker_fields S flat)"
proof (cases incl)
  case None
  then show ?thesis by (simp add: get_fields_def)
next
  case (Some inc)
  show ?thesis
  proof (cases "inc = []")
    case True
    with Some show ?thesis by (simp add: get_fields_def)
  next
    case False
    then have "get_fields S (Some inc) flat = include_loop (cls_name S) (walker_fields S flat) inc"
      by (rule get_fields_Some)
    with Some show ?thesis by (simp only: include_loop_subset)
  qed
qed

lemma resolve_walker:
  assumes "wf_model S" and "conforms S r" and "name \<in> set (fst (get_fields S incl flat))"
  shows "\<exists>v f. get_field_value_and_info r (split (CHR ''.'') name) = Inr (v, Some f) \<and>
           field_at S (split (CHR ''.'') name) = Some f \<and>
           (absent_on_path r (split (CHR ''.'') name) \<longrightarrow> v = PyNone)"
proof -
  have w: "name \<in> set (walker_fields S flat)" using assms(3) get_fields_subset by blast
  show ?thesis
  proof (cases flat)
    case True
    then obtain path where p: "path \<in> set (leaf_paths S)" "name = dot_join path"
      using w by (auto simp: walker_fields_def flatten_leaf_paths(1))
    have "path \<noteq> []" using p(1) leaf_paths_nonempty(1) by blast
    moreover have "\<forall>n \<in> set path. CHR ''.'' \<notin> set n" using leaf_paths_no_dot(1)[OF assms(1)] p(1) by blast
    ultimately have "split (CHR ''.'') name = path" using p(2) split_dot_join by simp
    then show ?thesis using resolve_leaf[OF assms(1,2) p(1)] by auto
  next
    case False
    then have top: "name \<in> set (map fst (fields S))" using w by (simp add: walker_fields_def)
    obtain n fs je where S: "S = BaseModel n fs je" by (cases S)
    from top obtain fld where "(name, fld) \<in> set fs" by (auto simp: S)
    then have "CHR ''.'' \<notin> set name" using assms(1) wf_items_mem by (auto simp: S)
    then have sp: "split (CHR ''.'') name = [name]" by (rule split_no_sep)
    show ?thesis using resolve_top_level[OF assms(1,2) top] by (auto simp: sp)
  qed
qed

text \<open>
  C1 (resolver totality). For a schema whose field names are distinct identifiers
  without dots, a record conforming to it (a singular nested field holds \<^verbatim>\<open>None\<close> or a
  conforming record) and a field path yielded by the schema walker (\<^verbatim>\<open>get_fields\<close> with
  any include list, flat or not, which covers \<^verbatim>\<open>flatten_fields\<close>),
  \<^verbatim>\<open>get_field_value_and_info\<close> on the split path returns a value and a field metadata
  object, the one the schema holds at that path; when an intermediate node of the record
  is \<^verbatim>\<open>None\<close> the returned value is \<^verbatim>\<open>None\<close>.
\<close>

theorem resolver_total:
  assumes "wf_model S" and "conforms S r" and "name \<in> set (fst (get_fields S incl flat))"
  shows "\<exists>v f. get_field_value_and_info r (split (CHR ''.'') name) = Inr (v, Some f) \<and>
           field_at S (split (CHR ''.'') name) = Some f \<and>
           (absent_on_path r (split (CHR ''.'') name) \<longrightarrow> v = PyNone)"
  using assms by (rule resolve_walker)

theorem resolver_total_witness:
  "wf_model ex_parent \<and> conforms ex_parent ex_record \<and>
   ''child.field_1'' \<in> set (fst (get_fields ex_parent None True)) \<and>
   absent_on_path ex_record (split (CHR ''.'') ''child.field_1'') \<and>
   get_field_value_and_info ex_record (split (CHR ''.'') ''child.field_1'')
     = Inr (PyNone, Some (ModelField (PlainClass ''str'') SHAPE_SINGLETON []))"
proof -
  have h1: "wf_model ex_parent" by (simp add: ex_parent_def)
  have h2: "conforms ex_parent ex_record" by (simp add: ex_parent_def ex_record_def)
  have h3: "''child.field_1'' \<in> set (fst (get_fields ex_parent None True))"
    by (simp add: get_fields_def walker_fields_def ex_parent_def)
  have sp: "split (CHR ''.'') ''child.field_1'' = [''child'', ''field_1'']" by simp
  have h4: "absent_on_path ex_record (split (CHR ''.'') ''child.field_1'')"
    unfolding sp by (simp add: ex_record_def)
  have fa: "field_at ex_parent (split (CHR ''.'') ''child.field_1'')
              = Some (ModelField (PlainClass ''str'') SHAPE_SINGLETON [])"
    unfolding sp by (simp add: ex_parent_def)
  from resolver_total[OF h1 h2 h3] h4 fa
  have "get_field_value_and_info ex_record (split (CHR ''.'') ''child.field_1'')
          = Inr (PyNone, Some (ModelField (PlainClass ''str'') SHAPE_SINGLETON []))"
    by auto
  with h1 h2 h3 h4 show ?thesis by simp
qed

section \<open>Flattening and reachable leaves\<close>

lemma leaf_paths_item_subset:
  "(n, fld) \<in> set fs \<Longrightarrow> set (leaf_paths_item n fld) \<subseteq> set (leaf_paths_items fs)"
  by (induction fs) auto

lemma leaf_paths_item_leaf: "is_leaf fld \<Longrightarrow> leaf_paths_item n fld = [[n]]"
  by (cases fld rule: is_leaf.cases) simp_all

lemma leaf_path_field_at:
  "wf_model S \<Longrightarrow> path \<in> set (leaf_paths S) \<Longrightarrow> \<exists>fld. field_at S path = Some fld \<and> is_leaf fld"
proof (induction path arbitrary: S)
  case Nil
  then show ?case using leaf_paths_nonempty(1) by blast
next
  case (Cons name p)
  obtain n fs je where S: "S = BaseModel n fs je" by (cases S)
  from Cons.prems(1) have d: "distinct (map fst fs)" and wi: "wf_items fs" by (simp_all add: S)
  from Cons.prems(2) obtain nm fld where
    mem: "(nm, fld) \<in> set fs" and pi: "name # p \<in> set (leaf_paths_item nm fld)"
    using leaf_paths_items_mem[of "name # p" fs] by (auto simp: S)
  from leaf_paths_item_mem[OF pi] have nm: "nm = name" by auto
  have look: "map_of fs name = Some fld" using d mem nm by simp
  from leaf_paths_item_mem[OF pi] show ?case
  proof (elim disjE exE conjE)
    assume "name # p = [nm]"
    then have p: "p = []" by simp
    have "is_leaf fld"
    proof (rule ccontr)
      assume "\<not> is_leaf fld"
      then obtain m ex where "fld = ModelField (ModelClass m) SHAPE_SINGLETON ex"
        by (cases fld rule: is_leaf.cases) auto
      with pi p have "[name] \<in> (\<lambda>path. nm # path) ` set (leaf_paths m)" by simp
      then show False using leaf_paths_nonempty(1) by blast
    qed
    then show ?thesis by (simp add: p look S)
  next
    fix m ex q
    assume fld: "fld = ModelField (ModelClass m) SHAPE_SINGLETON ex"
      and eq: "name # p = nm # q" and qne: "q \<noteq> []" and q: "q \<in> set (leaf_paths m)"
    have wm: "wf_model m" using wf_items_mem[OF wi mem] fld by simp
    obtain a r where qa: "q = a # r" using qne by (cases q) auto
    have "field_at S (name # q) = field_at m q" using look fld by (simp add: S qa)
    then show ?thesis using Cons.IH[OF wm] q eq by auto
  qed
qed

lemma field_at_leaf_path:
  "field_at S path = Some fld \<Longrightarrow> is_leaf fld \<Longrightarrow> path \<in> set (leaf_paths S)"
proof (induction S path arbitrary: fld rule: field_at.induct)
  case (1 S)
  then show ?case by simp
next
  case (2 S n)
  obtain nm fs je where S: "S = BaseModel nm fs je" by (cases S)
  from 2 have "(n, fld) \<in> set fs" by (auto simp: S dest: map_of_SomeD)
  then have "set (leaf_paths_item n fld) \<subseteq> set (leaf_paths_items fs)"
    by (rule leaf_paths_item_subset)
  then show ?case using 2(2) by (simp add: S leaf_paths_item_leaf)
next
  case (3 S n v va)
  obtain nm fs je where S: "S = BaseModel nm fs je" by (cases S)
  from 3(2) obtain m ex where
    look: "map_of fs n = Some (ModelField (ModelClass m) SHAPE_SINGLETON ex)"
    and fa: "field_at m (v # va) = Some fld"
    by (auto simp: S split: option.splits ModelField.splits py_type.splits shape.splits)
  have "v # va \<in> set (leaf_paths m)"
    using 3(1)[of "ModelField (ModelClass m) SHAPE_SINGLETON ex" "ModelClass m" SHAPE_SINGLETON ex m]
      look fa 3(3) by (simp add: S)
  then have "n # v # va \<in> set (leaf_paths_item n (ModelField (ModelClass m) SHAPE_SINGLETON ex))"
    by simp
  moreover have "(n, ModelField (ModelClass m) SHAPE_SINGLETON ex) \<in> set fs"
    using look by (rule map_of_SomeD)
  ultimately show ?case using leaf_paths_item_subset by (fastforce simp: S)
qed

lemma flatten_fields_reachable:
  "wf_model S \<Longrightarrow>
     set (flatten_fields S) = dot_join ` {path. \<exists>fld. field_at S path = Some fld \<and> is_leaf fld}"
  using leaf_path_field_at field_at_leaf_path
  by (fastforce simp: flatten_leaf_paths(1))

text \<open>
  C5 (flattening order). \<^verbatim>\<open>flatten_fields\<close> yields exactly the dot-joined leaf paths of
  the schema, where the leaf paths are enumerated depth-first in declaration order
  through singular nested fields only. Field by field: a singular nested field
  contributes the paths of its class prefixed with its name, between the paths of the
  fields declared before it and after it; a nested field of any other shape (a list of
  records) and a field of a plain type contribute their own name alone. For a schema
  with distinct, dot-free field names the yielded strings are exactly the dot-joined
  paths at which the schema, followed through singular nested fields, holds a leaf.
\<close>

theorem flatten_fields_order:
  "flatten_fields S = map dot_join (leaf_paths S) \<and>
   flatten_fields (BaseModel n (fs @ (name, ModelField (ModelClass m) SHAPE_SINGLETON ex) # gs) je) =
     flatten_fields (BaseModel n fs je) @ map (\<lambda>child_name. name @ ''.'' @ child_name) (flatten_fields m)
       @ flatten_fields (BaseModel n gs je) \<and>
   (sh \<noteq> SHAPE_SINGLETON \<longrightarrow>
      flatten_fields (BaseModel n (fs @ (name, ModelField (ModelClass m) sh ex) # gs) je) =
        flatten_fields (BaseModel n fs je) @ name # flatten_fields (BaseModel n gs je)) \<and>
   flatten_fields (BaseModel n (fs @ (name, ModelField (PlainClass c) sh ex) # gs) je) =
     flatten_fields (BaseModel n fs je) @ name # flatten_fields (BaseModel n gs je) \<and>
   (wf_model S \<longrightarrow>
      set (flatten_fields S)
        = dot_join ` {path. \<exists>fld. field_at S path = Some fld \<and> is_leaf fld})"
  using flatten_fields_reachable[of S]
  by (simp add: flatten_leaf_paths(1)[symmetric] flatten_items_append flatten_item_not_singleton)

theorem flatten_fields_order_witness:
  "SHAPE_LIST \<noteq> SHAPE_SINGLETON \<and> wf_model ex_parent \<and>
   flatten_fields ex_parent = [''field'', ''child.field_1'', ''child.field_2'', ''kids''] \<and>
   leaf_paths ex_parent = [[''field''], [''child'', ''field_1''], [''child'', ''field_2''], [''kids'']] \<and>
   dot_join ` {path. \<exists>fld. field_at ex_parent path = Some fld \<and> is_leaf fld}
     = {''field'', ''child.field_1'', ''child.field_2'', ''kids''}"
proof -
  have w: "wf_model ex_parent" by (simp add: ex_parent_def)
  have f: "flatten_fields ex_parent = [''field'', ''child.field_1'', ''child.field_2'', ''kids'']"
    by (simp add: ex_parent_def)
  from flatten_fields_order[where S = ex_parent and sh = SHAPE_LIST]
  have "wf_model ex_parent \<longrightarrow> set (flatten_fields ex_parent)
          = dot_join ` {path. \<exists>fld. field_at ex_parent path = Some fld \<and> is_leaf fld}"
    by blast
  with w have "dot_join ` {path. \<exists>fld. field_at ex_parent path = Some fld \<and> is_leaf fld}
          = set (flatten_fields ex_parent)"
    by simp
  then have "dot_join ` {path. \<exists>fld. field_at ex_parent path = Some fld \<and> is_leaf fld}
          = {''field'', ''child.field_1'', ''child.field_2'', ''kids''}"
    by (simp only: f list.set)
  moreover have "leaf_paths ex_parent
      = [[''field''], [''child'', ''field_1''], [''child'', ''field_2''], [''kids'']]"
    by (simp add: ex_parent_def)
  ultimately show ?thesis using w f by simp
qed

section \<open>Properties of formatted iteration\<close>






section \<open>Properties of the tabular codec\<close>

lemma str_nat_digit: "n < 10 \<Longrightarrow> str_nat n = [digit_char n]"
  by (subst str_nat.simps) simp

lemma digit_char_value: "n < 10 \<Longrightarrow> of_char (digit_char n) = 48 + n"
proof -
  assume "n < 10"
  then have "n \<in> {0, 1, 2, 3, 4, 5, 6, 7, 8, 9}" by auto
  then show ?thesis by (elim insertE emptyE) (simp_all add: digit_char_def)
qed

lemma decimal_snoc: "decimal (s @ [c]) = 10 * decimal s + (of_char c - 48)"
  by (simp add: decimal_def)

lemma decimal_str_nat: "decimal (str_nat n) = n"
proof (induction n rule: str_nat.induct)
  case (1 n)
  show ?case
  proof (cases "n < 10")
    case True
    then show ?thesis
      by (simp add: str_nat_digit decimal_def digit_char_value del: str_nat.simps)
  next
    case False
    have m: "n mod 10 < 10" by simp
    have s: "str_nat n = str_nat (n div 10) @ [digit_char (n mod 10)]"
      using False by (subst str_nat.simps) simp
    show ?thesis
      using 1[OF False]
      by (simp only: s decimal_snoc digit_char_value[OF m]) simp
  qed
qed

lemma read_models_loop_eq:
  "no_other_exception model rows \<Longrightarrow>
     read_models_loop model path error rows
       = (valid_records model rows,
          case rev (validation_failures model rows) of
            [] \<Rightarrow> error
          | (line_num, err) # earlier \<Rightarrow>
              Some (CSVValidationError
                      (''Bad data in row '' @ str_nat line_num @ '' of '' @ path
                         @ [CHR 0x0A] @ err)
                      line_num))"
proof (induction rows arbitrary: error)
  case Nil
  then show ?case by simp
next
  case (Cons a rows)
  obtain line_num row where a: "a = (line_num, row)" by (cases a)
  from Cons.prems have rest: "no_other_exception model rows"
    by (simp add: no_other_exception_def)
  show ?case
  proof (cases "model (normalize_row row)")
    case (Constructed m)
    then show ?thesis using Cons.IH[OF rest] by (simp add: a del: str_nat.simps)
  next
    case (ValidationError err)
    then show ?thesis using Cons.IH[OF rest]
      by (simp add: a bad_data_msg_def del: str_nat.simps split: list.splits)
  next
    case (Raised e)
    then show ?thesis using Cons.prems by (simp add: a no_other_exception_def)
  qed
qed

lemma number_from_zip: "number_from n xs = zip [n..<n + length xs] xs"
proof (induction xs arbitrary: n)
  case Nil
  then show ?case by simp
next
  case (Cons x xs)
  have "[n..<n + length (x # xs)] = n # [Suc n..<Suc n + length xs]"
    by (simp add: upt_conv_Cons del: upt_Suc)
  then show ?case by (simp add: Cons.IH del: upt_Suc)
qed

lemma dict_rows_filter:
  "dict_rows header numbered
     = map (\<lambda>(line_num, line). (line_num, mk_row header line))
         (filter (\<lambda>(line_num, line). line \<noteq> []) numbered)"
  by (induction header numbered rule: dict_rows.induct) auto

lemma DictReader_lines:
  "DictReader f None
     = (case f of
          [] \<Rightarrow> []
        | header # rows \<Rightarrow>
            map (\<lambda>(line_num, line). (line_num, mk_row header line))
              (filter (\<lambda>(line_num, line). line \<noteq> []) (zip [2..<2 + length rows] rows)))"
  by (simp add: DictReader_def dict_rows_filter number_from_zip del: upt_Suc split: list.splits)

lemma DictReader_line_nums:
  "map fst (DictReader f None)
     = map fst (filter (\<lambda>(line_num, line). line \<noteq> []) (zip [2..<2 + length (tl f)] (tl f)))"
  by (cases f) (simp_all add: DictReader_lines case_prod_unfold comp_def del: upt_Suc)

text \<open>
  C2 (CSV ingest failure policy), as the code has it. When no row raises anything but
  a validation error, \<^verbatim>\<open>read_models_from_csv\<close> goes through all rows and yields the
  record of every row that constructs, in order; once the source is exhausted it raises
  nothing if no row failed, and otherwise exactly one \<^verbatim>\<open>CSVValidationError\<close>, for the
  last row that failed: its \<^verbatim>\<open>row\<close> is the line number of that row and its message is
  \<^verbatim>\<open>Bad data in row\<close>, the line number in decimal, \<^verbatim>\<open>of\<close>, the path, a line break and the
  text of the validation error. The line number of a row is the number of its line in
  the source, the header being line 1 and blank lines being counted. The variable
  \<^verbatim>\<open>error\<close> is overwritten at each failure: with two invalid rows the exception names
  the second, not the first; and in a source of three data rows whose second is invalid
  the exception names row 3.
\<close>

theorem read_models_last_failure:
  assumes "no_other_exception model (DictReader f None)"
  shows "read_models_from_csv model path f
           = (valid_records model (DictReader f None),
              case rev (validation_failures model (DictReader f None)) of
                [] \<Rightarrow> None
              | (line_num, err) # earlier \<Rightarrow>
                  Some (CSVValidationError
                          (''Bad data in row '' @ str_nat line_num @ '' of '' @ path
                             @ [CHR 0x0A] @ err)
                          line_num)) \<and>
         decimal (str_nat n) = n \<and>
         map fst (DictReader f None)
           = map fst (filter (\<lambda>(line_num, line). line \<noteq> [])
                        (zip [2..<2 + length (tl f)] (tl f)))"
proof (intro conjI)
  show "read_models_from_csv model path f
           = (valid_records model (DictReader f None),
              case rev (validation_failures model (DictReader f None)) of
                [] \<Rightarrow> None
              | (line_num, err) # earlier \<Rightarrow>
                  Some (CSVValidationError
                          (''Bad data in row '' @ str_nat line_num @ '' of '' @ path
                             @ [CHR 0x0A] @ err)
                          line_num))"
    unfolding read_models_from_csv_def by (rule read_models_loop_eq[OF assms])
next
  show "decimal (str_nat n) = n" by (rule decimal_str_nat)
next
  show "map fst (DictReader f None)
           = map fst (filter (\<lambda>(line_num, line). line \<noteq> [])
                        (zip [2..<2 + length (tl f)] (tl f)))"
    by (rule DictReader_line_nums)
qed

theorem read_models_first_failure_counterexample:
  "validation_failures ex_sized_model (DictReader ex_csv_two_bad None)
     = [(2, ''size: value is not a valid integer''), (4, ''size: field required'')] \<and>
   read_models_from_csv ex_sized_model ''in.csv'' ex_csv_two_bad
     = ([Instance ex_sized [(''name'', PyNone), (''size'', Scalar ''int'' ''7'')]],
        Some (CSVValidationError
                (''Bad data in row 4 of in.csv'' @ [CHR 0x0A] @ ''size: field required'') 4)) \<and>
   read_models_from_csv ex_sized_model ''in.csv'' ex_csv_scenario
     = ([Instance ex_sized [(''name'', Scalar ''str'' ''a''), (''size'', Scalar ''int'' ''1'')],
         Instance ex_sized [(''name'', Scalar ''str'' ''c''), (''size'', Scalar ''int'' ''3'')]],
        Some (CSVValidationError
                (''Bad data in row 3 of in.csv'' @ [CHR 0x0A]
                   @ ''size: value is not a valid integer'') 3))"
  by (simp add: read_models_from_csv_def DictReader_def mk_row_def ex_csv_two_bad_def
      ex_csv_scenario_def ex_sized_model_def normalize_row_def is_digit_def bad_data_msg_def
      str_nat_digit digit_char_def del: str_nat.simps)

theorem read_models_last_failure_witness:
  "no_other_exception ex_sized_model (DictReader ex_csv_two_bad None) \<and>
   read_models_from_csv ex_sized_model ''in.csv'' ex_csv_two_bad
     = ([Instance ex_sized [(''name'', PyNone), (''size'', Scalar ''int'' ''7'')]],
        Some (CSVValidationError
                (''Bad data in row 4 of in.csv'' @ [CHR 0x0A] @ ''size: field required'') 4)) \<and>
   decimal ''4'' = 4 \<and>
   map fst (DictReader ex_csv_two_bad None) = [2, 3, 4]"
proof -
  have r: "DictReader ex_csv_two_bad None
             = [(2, [(Some ''name'', Text ''a''), (Some ''size'', Text ''big'')]),
                (3, [(Some ''name'', Text []), (Some ''size'', Text ''7'')]),
                (4, [(Some ''name'', Text ''c''), (Some ''size'', Text [])])]"
    by (simp add: DictReader_def mk_row_def ex_csv_two_bad_def)
  have h: "no_other_exception ex_sized_model (DictReader ex_csv_two_bad None)"
    by (simp add: r no_other_exception_def ex_sized_model_def normalize_row_def is_digit_def)
  have s: "str_nat 4 = ''4''"
    by (simp add: str_nat_digit digit_char_def del: str_nat.simps)
  from read_models_last_failure[OF h, of "''in.csv''" 4]
  have "read_models_from_csv ex_sized_model ''in.csv'' ex_csv_two_bad
          = ([Instance ex_sized [(''name'', PyNone), (''size'', Scalar ''int'' ''7'')]],
             Some (CSVValidationError
                     (''Bad data in row 4 of in.csv'' @ [CHR 0x0A] @ ''size: field required'') 4))"
    and "decimal ''4'' = 4"
    and "map fst (DictReader ex_csv_two_bad None) = [2, 3, 4]"
    by (simp_all add: r s ex_sized_model_def normalize_row_def is_digit_def
        del: str_nat.simps)
  with h show ?thesis by blast
qed

text \<open>
  C3 (column-subset export). For records with the fields id, name and size and the
  columns id and name, \<^verbatim>\<open>write_models_to_csv\<close> writes the header \<^verbatim>\<open>id,name,size\<close>: the
  field names of the writer are all the fields of the first record, whatever the
  columns. Each row has its values under id and name and an empty cell under size.
\<close>

theorem write_models_header_all_fields:
  "write_models_to_csv ex_str ex_files (Some [''id'', ''name''])
     = ([[''id'', ''name'', ''size''],
         [''1'', ''a.txt'', ''''],
         [''2'', '''', '''']], None)"
  by (simp add: write_models_to_csv_def ex_files_def ex_file_def writerow_def csv_cell_def)

text \<open>
  C9 (raw-mapping write). \<^verbatim>\<open>write_dict_to_csv\<close> writes nothing, header included, and
  raises on every input: \<^verbatim>\<open>flatten_fields(first)\<close> is a generator object, and asking
  it for its \<^verbatim>\<open>keys\<close> raises \<^verbatim>\<open>AttributeError\<close> before the writer exists.
\<close>

theorem write_dict_never_writes:
  "fst (write_dict_to_csv str models columns) = [] \<and>
   snd (write_dict_to_csv str models columns) \<noteq> None"
  by (cases models)
    (auto simp: write_dict_to_csv_def Let_def split: sum.splits option.splits list.splits)

theorem write_dict_never_writes_witness:
  "write_dict_to_csv ex_str ex_mappings None = ([], Some (AttributeError ''keys''))"
  using write_dict_never_writes[of ex_str ex_mappings None]
  by (simp add: write_dict_to_csv_def ex_mappings_def)

lemma dict_items_keys: "map fst (dict_items vals) = map fst vals"
  by (induction vals) auto

lemma dict_items_map: "dict_items vals = map (\<lambda>(k, v). (k, dict_value v)) vals"
  by (induction vals) auto

lemma map_of_keys:
  "distinct (map fst kvs) \<Longrightarrow>
     map (\<lambda>key. case map_of kvs key of None \<Rightarrow> d | Some v \<Rightarrow> f v) (map fst kvs)
       = map (\<lambda>(k, v). f v) kvs"
proof (induction kvs)
  case Nil
  then show ?case by simp
next
  case (Cons a kvs)
  obtain k v where a: "a = (k, v)" by (cases a)
  have "map (\<lambda>key. case map_of (a # kvs) key of None \<Rightarrow> d | Some v \<Rightarrow> f v) (map fst kvs)
          = map (\<lambda>key. case map_of kvs key of None \<Rightarrow> d | Some v \<Rightarrow> f v) (map fst kvs)"
    using Cons.prems by (intro map_cong refl) (auto simp: a)
  then show ?case using Cons by (simp add: a)
qed

lemma writerow_record:
  assumes "distinct (map fst vals)"
  shows "writerow str (map fst vals) (dict_items vals) = Inr (record_cells str vals)"
proof -
  have d: "distinct (map fst (dict_items vals))" using assms by (simp add: dict_items_keys)
  have "map (\<lambda>key. case map_of (dict_items vals) key of None \<Rightarrow> [] | Some v \<Rightarrow> csv_cell str v)
           (map fst (dict_items vals))
          = map (\<lambda>(k, v). csv_cell str v) (dict_items vals)"
    using d by (rule map_of_keys)
  also have "\<dots> = record_cells str vals"
    by (simp add: dict_items_map record_cells_def case_prod_unfold)
  finally show ?thesis
    by (simp add: writerow_def dict_items_keys list_ex_iff)
qed

lemma write_rows_records:
  assumes "distinct hdr"
    and "\<forall>m \<in> set models. \<exists>c vals. m = Instance c vals \<and> map fst vals = hdr"
  shows "write_rows str hdr None models written
           = (written @ map (\<lambda>m. record_cells str (attrs m)) models, None)"
  using assms(2)
proof (induction models arbitrary: written)
  case Nil
  then show ?case by simp
next
  case (Cons m models)
  then obtain c vals where m: "m = Instance c vals" and k: "map fst vals = hdr" by auto
  have w: "writerow str hdr (dict_items vals) = Inr (record_cells str vals)"
    using writerow_record[of vals str] assms(1) k by simp
  show ?case using Cons by (simp add: m w)
qed

lemma write_models_records:
  assumes "distinct (map fst (fields S))" and "models \<noteq> []"
    and "\<forall>m \<in> set models. \<exists>vals. m = Instance S vals \<and> map fst vals = map fst (fields S)"
  shows "write_models_to_csv str models None
           = (map fst (fields S) # map (\<lambda>m. record_cells str (attrs m)) models, None)"
proof -
  obtain first rest where ms: "models = first # rest" using assms(2) by (cases models) auto
  obtain vals where f: "first = Instance S vals" using assms(3) ms by auto
  have "\<forall>m \<in> set models. \<exists>c vals. m = Instance c vals \<and> map fst vals = map fst (fields S)"
    using assms(3) by blast
  from write_rows_records[OF assms(1) this, of str "[map fst (fields S)]"]
  show ?thesis by (simp add: write_models_to_csv_def ms f del: write_rows.simps)
qed

lemma dict_value_none: "(dict_value v = PyNone) = (v = PyNone)"
  by (cases v) auto

lemma record_cells_explicit:
  "record_cells str vals
     = map (\<lambda>(k, v). if v = PyNone then [] else str (dict_value v)) vals"
  by (simp add: record_cells_def csv_cell_def dict_value_none)

lemma list_all2_map_eq:
  "list_all2 P xs ys \<Longrightarrow> (\<And>x y. P x y \<Longrightarrow> f x = g y) \<Longrightarrow> map f xs = map g ys"
  by (induction rule: list_all2_induct) auto

lemma stores_cells_pattern:
  assumes "stores_cells str row vals"
  shows "map (\<lambda>c. c = []) (record_cells str vals) = map (\<lambda>c. c = Missing) (map snd row)"
proof -
  have a: "list_all2 (\<lambda>c v. if c = Missing then v = PyNone else is_scalar v \<and> str v \<noteq> [])
             (map snd row) (map snd vals)"
    using assms by (simp add: stores_cells_def)
  have "map (\<lambda>c. c = Missing) (map snd row)
          = map (\<lambda>v. csv_cell str (dict_value v) = []) (map snd vals)"
  proof (rule list_all2_map_eq[OF a])
    fix c :: cell and v :: "'a py_value"
    assume h: "if c = Missing then v = PyNone else is_scalar v \<and> str v \<noteq> []"
    show "(c = Missing) = (csv_cell str (dict_value v) = [])"
    proof (cases "c = Missing")
      case True
      with h show ?thesis by (simp add: csv_cell_def)
    next
      case False
      with h obtain t' s' where "v = Scalar t' s'" "str v \<noteq> []" by (cases v) auto
      with False show ?thesis by (simp add: csv_cell_def)
    qed
  qed
  then show ?thesis by (simp add: record_cells_def case_prod_unfold comp_def)
qed

lemma read_models_loop_records:
  "fst (read_models_loop model path error rows)
     = concat (map (\<lambda>(line_num, row). case model (normalize_row row) of
                                          Constructed m \<Rightarrow> [m]
                                        | _ \<Rightarrow> [])
         (takeWhile (\<lambda>(line_num, row). case model (normalize_row row) of
                                          Raised e \<Rightarrow> False
                                        | _ \<Rightarrow> True) rows))"
proof (induction rows arbitrary: error)
  case Nil
  then show ?case by simp
next
  case (Cons a rows)
  obtain line_num row where a: "a = (line_num, row)" by (cases a)
  show ?case
  proof (cases "model (normalize_row row)")
    case (Constructed m)
    obtain more raised where p: "read_models_loop model path error rows = (more, raised)"
      by (cases "read_models_loop model path error rows")
    from Cons.IH[of error] have "more = concat (map (\<lambda>(line_num, row). case model (normalize_row row) of
                                          Constructed m \<Rightarrow> [m]
                                        | _ \<Rightarrow> [])
         (takeWhile (\<lambda>(line_num, row). case model (normalize_row row) of
                                          Raised e \<Rightarrow> False
                                        | _ \<Rightarrow> True) rows))"
      by (simp add: p)
    then show ?thesis using Constructed by (simp add: a p)
  next
    case (ValidationError err)
    then show ?thesis using Cons.IH by (simp add: a)
  next
    case (Raised e)
    then show ?thesis by (simp add: a)
  qed
qed

lemma read_models_loop_all_constructed:
  "\<forall>(line_num, row) \<in> set rows. \<exists>m. model (normalize_row row) = Constructed m \<Longrightarrow>
     \<exists>ms. read_models_loop model path error rows = (ms, error) \<and>
       list_all2 (\<lambda>(line_num, row) m. model (normalize_row row) = Constructed m) rows ms"
proof (induction rows)
  case Nil
  then show ?case by simp
next
  case (Cons a rows)
  obtain line_num row where a: "a = (line_num, row)" by (cases a)
  from Cons.prems obtain m where m: "model (normalize_row row) = Constructed m" by (auto simp: a)
  from Cons obtain ms where "read_models_loop model path error rows = (ms, error)"
    "list_all2 (\<lambda>(line_num, row) m. model (normalize_row row) = Constructed m) rows ms" by auto
  then show ?case using m by (simp add: a)
qed

lemma list_all2_mem: "list_all2 P xs ys \<Longrightarrow> list_all2 (\<lambda>x y. P x y \<and> x \<in> set xs) xs ys"
  by (auto simp: list_all2_conv_all_nth)

lemma some_keys_eq: "map (\<lambda>(k, v). Some k) vals = map Some hdr \<Longrightarrow> map fst vals = hdr"
  by (induction vals arbitrary: hdr) auto

lemma normalize_row_keys: "map fst (normalize_row row) = map fst row"
  by (simp add: normalize_row_def case_prod_unfold)

lemma stores_cells_keys:
  "stores_cells str (normalize_row row) vals \<Longrightarrow> map fst row = map Some hdr \<Longrightarrow> map fst vals = hdr"
proof -
  assume "stores_cells str (normalize_row row) vals" and h: "map fst row = map Some hdr"
  then have "map (\<lambda>(k, v). Some k) vals = map Some hdr"
    by (simp add: stores_cells_def normalize_row_keys)
  then show ?thesis by (rule some_keys_eq)
qed

lemma round_trip_rows:
  assumes "distinct (map fst (fields S))"
    and "rs \<noteq> []"
    and "\<forall>(line_num, row) \<in> set rs. map fst row = map Some (map fst (fields S))"
    and "\<forall>(line_num, row) \<in> set rs.
           \<exists>vals. model (normalize_row row) = Constructed (Instance S vals) \<and>
                  stores_cells str (normalize_row row) vals"
  shows "\<exists>out. write_models_to_csv str (fst (read_models_loop model path None rs)) None
                   = (map fst (fields S) # out, None) \<and>
                snd (read_models_loop model path None rs) = None \<and>
                map (map (\<lambda>c. c = [])) out
                   = map (\<lambda>(line_num, row). map (\<lambda>c. c = Missing) (map snd (normalize_row row))) rs"
proof -
  let ?hdr = "map fst (fields S)"
  have "\<forall>(line_num, row) \<in> set rs. \<exists>m. model (normalize_row row) = Constructed m"
    using assms(4) by fast
  from read_models_loop_all_constructed[OF this, of path None]
  obtain ms where rd: "read_models_loop model path None rs = (ms, None)"
    and l2: "list_all2 (\<lambda>(line_num, row) m. model (normalize_row row) = Constructed m) rs ms"
    by blast
  have l2m: "list_all2 (\<lambda>lr m. (case lr of (line_num, row) \<Rightarrow>
                 model (normalize_row row) = Constructed m) \<and> lr \<in> set rs) rs ms"
    by (rule list_all2_mono[OF list_all2_mem[OF l2]]) auto
  have each: "\<exists>vals. m = Instance S vals \<and> stores_cells str (normalize_row row) vals
                \<and> map fst vals = ?hdr"
    if "model (normalize_row row) = Constructed m" "(line_num, row) \<in> set rs" for line_num row m
  proof -
    from assms(4) that(2) obtain vals where
      v: "model (normalize_row row) = Constructed (Instance S vals)"
         "stores_cells str (normalize_row row) vals" by fast
    from assms(3) that(2) have r: "map fst row = map Some ?hdr" by fast
    from v(1) that(1) have "m = Instance S vals" by simp
    then show ?thesis using v(2) stores_cells_keys[OF v(2) r] by simp
  qed
  have ms_ne: "ms \<noteq> []" using assms(2) l2 by (auto dest: list_all2_lengthD)
  have inst: "\<forall>m \<in> set ms. \<exists>vals. m = Instance S vals \<and> map fst vals = ?hdr"
  proof
    fix m assume "m \<in> set ms"
    then obtain i where i: "i < length ms" "ms ! i = m" by (auto simp: in_set_conv_nth)
    obtain line_num row where lr: "rs ! i = (line_num, row)" by (cases "rs ! i")
    have il: "i < length rs" using i(1) l2 by (auto dest: list_all2_lengthD)
    then have "(line_num, row) \<in> set rs" using lr by (metis nth_mem)
    moreover have "model (normalize_row row) = Constructed m"
      using list_all2_nthD[OF l2 il] lr i(2) by simp
    ultimately show "\<exists>vals. m = Instance S vals \<and> map fst vals = ?hdr" using each by blast
  qed
  have w: "write_models_to_csv str ms None
             = (?hdr # map (\<lambda>m. record_cells str (attrs m)) ms, None)"
    by (rule write_models_records[OF assms(1) ms_ne inst])
  have pat: "map (\<lambda>lr. case lr of (line_num, row) \<Rightarrow>
                     map (\<lambda>c. c = Missing) (map snd (normalize_row row))) rs
               = map (\<lambda>m. map (\<lambda>c. c = []) (record_cells str (attrs m))) ms"
  proof (rule list_all2_map_eq[OF l2m])
    fix lr m
    assume h: "(case lr of (line_num, row) \<Rightarrow> model (normalize_row row) = Constructed m) \<and> lr \<in> set rs"
    obtain line_num row where lr: "lr = (line_num, row)" by (cases lr)
    from h lr have "model (normalize_row row) = Constructed m" "(line_num, row) \<in> set rs" by auto
    from each[OF this] obtain vals where
      "m = Instance S vals" "stores_cells str (normalize_row row) vals"
      by blast
    then show "(case lr of (line_num, row) \<Rightarrow> map (\<lambda>c. c = Missing) (map snd (normalize_row row)))
                 = map (\<lambda>c. c = []) (record_cells str (attrs m))"
      using stores_cells_pattern[of str "normalize_row row" vals] by (simp add: lr)
  qed
  have pat': "map (map (\<lambda>c. c = [])) (map (\<lambda>m. record_cells str (attrs m)) ms)
                = map (\<lambda>(line_num, row). map (\<lambda>c. c = Missing) (map snd (normalize_row row))) rs"
    using pat by (simp add: comp_def)
  show ?thesis
    by (rule exI[of _ "map (\<lambda>m. record_cells str (attrs m)) ms"])
       (simp only: rd w pat' fst_conv snd_conv simp_thms)
qed

lemma dict_set_fresh: "k \<notin> fst ` set d \<Longrightarrow> dict_set d k v = d @ [(k, v)]"
  by (induction d) auto

lemma fold_dict_set_zip:
  "distinct ks \<Longrightarrow> Some ` set ks \<inter> fst ` set d = {} \<Longrightarrow>
     fold (\<lambda>(key, c) d. dict_set d (Some key) (Text c)) (zip ks cs) d
       = d @ zip (map Some ks) (map Text cs)"
proof (induction ks arbitrary: cs d)
  case Nil
  then show ?case by simp
next
  case (Cons k ks)
  show ?case
  proof (cases cs)
    case Nil
    then show ?thesis by simp
  next
    case (Cons c cs')
    have fresh: "Some k \<notin> fst ` set d" using Cons.prems(2) by auto
    have disj: "Some ` set ks \<inter> fst ` set (d @ [(Some k, Text c)]) = {}"
      using Cons.prems by auto
    have d: "distinct ks" using Cons.prems(1) by simp
    show ?thesis
      using Cons.IH[OF d disj, of cs']
      by (simp add: Cons dict_set_fresh[OF fresh])
  qed
qed

lemma mk_row_full:
  "distinct hdr \<Longrightarrow> length line = length hdr \<Longrightarrow>
     mk_row hdr line = zip (map Some hdr) (map Text line)"
  using fold_dict_set_zip[of hdr "[]" line] by (simp add: mk_row_def)

lemma normalize_row_full:
  "normalize_row (zip (map Some hdr) (map Text line)) = row_read hdr line"
  by (simp add: normalize_row_def row_read_def zip_map2 zip_map1 case_prod_unfold comp_def)

lemma row_read_absent:
  "length line = length hdr \<Longrightarrow>
     map (\<lambda>c. c = Missing) (map snd (row_read hdr line)) = map (\<lambda>c. c = []) line"
  by (simp add: row_read_def comp_def)

lemma full_row_absent:
  "length line = length hdr \<Longrightarrow>
     map (\<lambda>c. c = Missing) (map snd (normalize_row (zip (map Some hdr) (map Text line))))
       = map (\<lambda>c. c = []) line"
  by (simp only: normalize_row_full row_read_absent)

lemma DictReader_full:
  assumes "distinct hdr" and "hdr \<noteq> []" and "\<forall>line \<in> set rows. length line = length hdr"
  shows "DictReader (hdr # rows) None
           = map (\<lambda>(line_num, line). (line_num, zip (map Some hdr) (map Text line)))
               (zip [2..<2 + length rows] rows)"
proof -
  have ne: "\<forall>line \<in> set rows. line \<noteq> []" using assms(2,3) by auto
  have f: "filter (\<lambda>(line_num, line). line \<noteq> []) (zip [2..<2 + length rows] rows)
             = zip [2..<2 + length rows] rows"
    using ne by (auto simp: filter_id_conv dest: set_zip_rightD)
  have "map (\<lambda>(line_num, line). (line_num, mk_row hdr line)) (zip [2..<2 + length rows] rows)
          = map (\<lambda>(line_num, line). (line_num, zip (map Some hdr) (map Text line)))
              (zip [2..<2 + length rows] rows)"
    using assms(1,3) by (intro map_cong refl) (auto simp: mk_row_full dest: set_zip_rightD)
  then show ?thesis by (simp only: DictReader_lines list.case f)
qed

lemma round_trip:
  assumes "distinct (map fst (fields S))" and "fields S \<noteq> []" and "rows \<noteq> []"
    and "\<forall>line \<in> set rows. length line = length (fields S) \<and>
           (\<exists>vals. model (row_read (map fst (fields S)) line) = Constructed (Instance S vals) \<and>
                   stores_cells str (row_read (map fst (fields S)) line) vals)"
  shows "\<exists>out. write_models_to_csv str
                  (fst (read_models_from_csv model path (map fst (fields S) # rows))) None
                   = (map fst (fields S) # out, None) \<and>
                snd (read_models_from_csv model path (map fst (fields S) # rows)) = None \<and>
                map (map (\<lambda>c. c = [])) out = map (map (\<lambda>c. c = [])) rows"
proof -
  let ?hdr = "map fst (fields S)"
  let ?rs = "map (\<lambda>(line_num, line). (line_num, zip (map Some ?hdr) (map Text line)))
               (zip [2..<2 + length rows] rows)"
  have len: "\<forall>line \<in> set rows. length line = length ?hdr" using assms(4) by simp
  have hne: "?hdr \<noteq> []" using assms(2) by simp
  have rd: "DictReader (?hdr # rows) None = ?rs"
    by (rule DictReader_full[OF assms(1) hne len])
  have ne: "?rs \<noteq> []" using assms(3) by (cases rows) (simp_all add: upt_conv_Cons del: upt_Suc)
  have mem: "\<exists>line \<in> set rows. row = zip (map Some ?hdr) (map Text line)"
    if "(line_num, row) \<in> set ?rs" for line_num row
    using that by (auto dest: set_zip_rightD)
  have keys: "\<forall>(line_num, row) \<in> set ?rs. map fst row = map Some ?hdr"
  proof (intro ballI, clarify)
    fix line_num row assume "(line_num, row) \<in> set ?rs"
    from mem[OF this] obtain line where "line \<in> set rows" "row = zip (map Some ?hdr) (map Text line)"
      by blast
    then show "map fst row = map Some ?hdr" using len by simp
  qed
  have cons: "\<forall>(line_num, row) \<in> set ?rs.
           \<exists>vals. model (normalize_row row) = Constructed (Instance S vals) \<and>
                  stores_cells str (normalize_row row) vals"
  proof (intro ballI, clarify)
    fix line_num row assume "(line_num, row) \<in> set ?rs"
    from mem[OF this] obtain line where l: "line \<in> set rows"
      "row = zip (map Some ?hdr) (map Text line)" by blast
    have nr: "normalize_row row = row_read ?hdr line"
      by (simp only: l(2) normalize_row_full)
    from assms(4) l(1) obtain vals where
      "model (row_read ?hdr line) = Constructed (Instance S vals)"
      "stores_cells str (row_read ?hdr line) vals" by blast
    then show "\<exists>vals. model (normalize_row row) = Constructed (Instance S vals) \<and>
                  stores_cells str (normalize_row row) vals"
      by (simp only: nr) blast
  qed
  from round_trip_rows[OF assms(1) ne keys cons, of path]
  obtain out where
    w: "write_models_to_csv str (fst (read_models_loop model path None ?rs)) None = (?hdr # out, None)"
    and e: "snd (read_models_loop model path None ?rs) = None"
    and p: "map (map (\<lambda>c. c = [])) out
              = map (\<lambda>(line_num, row). map (\<lambda>c. c = Missing) (map snd (normalize_row row))) ?rs"
    by blast
  have "map (\<lambda>(line_num, row). map (\<lambda>c. c = Missing) (map snd (normalize_row row))) ?rs
          = map (\<lambda>(line_num, line). map (\<lambda>c. c = Missing)
                   (map snd (normalize_row (zip (map Some ?hdr) (map Text line)))))
              (zip [2..<2 + length rows] rows)"
    by (simp only: map_map comp_def case_prod_unfold fst_conv snd_conv)
  also have "\<dots> = map (\<lambda>(line_num, line). map (\<lambda>c. c = []) line)
                      (zip [2..<2 + length rows] rows)"
  proof (rule map_cong[OF refl])
    fix x assume x: "x \<in> set (zip [2..<2 + length rows] rows)"
    obtain line_num line where xl: "x = (line_num, line)" by (cases x)
    from x xl have "line \<in> set rows" using set_zip_rightD by fast
    with len have "length line = length ?hdr" by blast
    from full_row_absent[OF this]
    show "(case x of (line_num, line) \<Rightarrow> map (\<lambda>c. c = Missing)
                   (map snd (normalize_row (zip (map Some ?hdr) (map Text line)))))
            = (case x of (line_num, line) \<Rightarrow> map (\<lambda>c. c = []) line)"
      by (simp only: xl prod.case)
  qed
  also have "\<dots> = map (map (\<lambda>c. c = [])) (map snd (zip [2..<2 + length rows] rows))"
    by (simp only: map_map comp_def case_prod_unfold)
  also have "\<dots> = map (map (\<lambda>c. c = [])) rows"
  proof -
    have "map snd (zip [2..<2 + length rows] rows) = rows"
      by (rule map_snd_zip) (simp only: length_upt add_diff_cancel_left')
    then show ?thesis by (simp only:)
  qed
  finally have p': "map (map (\<lambda>c. c = [])) out = map (map (\<lambda>c. c = [])) rows"
    using p by simp
  show ?thesis
    unfolding read_models_from_csv_def rd using w e p' by blast
qed

text \<open>
  C8 (empty string and absent value), with the conditions the round trip needs.
  \<^verbatim>\<open>read_dict_from_csv\<close> yields every row of the reader with each empty-string cell
  replaced by \<^verbatim>\<open>None\<close> and every other cell unchanged; \<^verbatim>\<open>read_models_from_csv\<close> yields
  the records constructed from the rows so changed, up to the first row at which the
  construction raises something other than a validation error. For records of one
  schema, each holding a value for every field in declared order,
  \<^verbatim>\<open>write_models_to_csv\<close> without columns writes the schema's fields as header and one
  row per record, with the empty string wherever the record holds \<^verbatim>\<open>None\<close>. For a source
  whose header lists the schema's fields in declared order, with at least one line
  after it, where every line has one cell for each column and constructs into a record
  of the schema that stores its cells, column by column (\<^verbatim>\<open>None\<close> for an empty cell, a
  scalar whose \<^verbatim>\<open>str\<close> is not empty for any other), writing what was read gives back the
  header and, line by line, the same pattern of empty cells. The round trip fails
  without these conditions: a source with no line after the header (nothing is written
  and \<^verbatim>\<open>StopIteration\<close> is raised), a source with a column less than the schema (the
  header written has every field), a schema with an aliased field (pydantic does not
  populate it from the column of its name, so its cell comes back empty).
\<close>

theorem empty_absent_round_trip:
  "read_dict_from_csv f field_names
     = map (\<lambda>(line_num, row). map (\<lambda>(key, c). (key, if c = Text [] then Missing else c)) row)
         (DictReader f field_names) \<and>
   fst (read_models_from_csv model path f)
     = concat (map (\<lambda>(line_num, row).
                      case model (map (\<lambda>(key, c). (key, if c = Text [] then Missing else c)) row) of
                        Constructed m \<Rightarrow> [m]
                      | _ \<Rightarrow> [])
         (takeWhile (\<lambda>(line_num, row).
                       case model (map (\<lambda>(key, c). (key, if c = Text [] then Missing else c)) row) of
                         Raised e \<Rightarrow> False
                       | _ \<Rightarrow> True)
            (DictReader f None))) \<and>
   (distinct (map fst (fields S)) \<and> models \<noteq> [] \<and>
    (\<forall>m \<in> set models. \<exists>vals. m = Instance S vals \<and> map fst vals = map fst (fields S)) \<longrightarrow>
      write_models_to_csv str models None
        = (map fst (fields S)
             # map (\<lambda>m. map (\<lambda>(k, v). if v = PyNone then [] else str (dict_value v)) (attrs m))
                 models, None)) \<and>
   (distinct (map fst (fields S)) \<and> fields S \<noteq> [] \<and> rows \<noteq> [] \<and>
    (\<forall>line \<in> set rows. length line = length (fields S) \<and>
       (\<exists>vals. model (row_read (map fst (fields S)) line) = Constructed (Instance S vals) \<and>
               stores_cells str (row_read (map fst (fields S)) line) vals)) \<longrightarrow>
      (\<exists>out. write_models_to_csv str
                (fst (read_models_from_csv model path (map fst (fields S) # rows))) None
                 = (map fst (fields S) # out, None) \<and>
              snd (read_models_from_csv model path (map fst (fields S) # rows)) = None \<and>
              map (map (\<lambda>c. c = [])) out = map (map (\<lambda>c. c = [])) rows))"
proof (intro conjI impI)
  show "read_dict_from_csv f field_names
     = map (\<lambda>(line_num, row). map (\<lambda>(key, c). (key, if c = Text [] then Missing else c)) row)
         (DictReader f field_names)"
    by (simp add: read_dict_from_csv_def normalize_row_def)
next
  show "fst (read_models_from_csv model path f)
     = concat (map (\<lambda>(line_num, row).
                      case model (map (\<lambda>(key, c). (key, if c = Text [] then Missing else c)) row) of
                        Constructed m \<Rightarrow> [m]
                      | _ \<Rightarrow> [])
         (takeWhile (\<lambda>(line_num, row).
                       case model (map (\<lambda>(key, c). (key, if c = Text [] then Missing else c)) row) of
                         Raised e \<Rightarrow> False
                       | _ \<Rightarrow> True)
            (DictReader f None)))"
    using read_models_loop_records[of model path None "DictReader f None"]
    by (simp only: read_models_from_csv_def normalize_row_def)
next
  assume h: "distinct (map fst (fields S)) \<and> models \<noteq> [] \<and>
    (\<forall>m \<in> set models. \<exists>vals. m = Instance S vals \<and> map fst vals = map fst (fields S))"
  then have h1: "distinct (map fst (fields S))" and h2: "models \<noteq> []"
    and h3: "\<forall>m \<in> set models. \<exists>vals. m = Instance S vals \<and> map fst vals = map fst (fields S)"
    by blast+
  show "write_models_to_csv str models None
        = (map fst (fields S)
             # map (\<lambda>m. map (\<lambda>(k, v). if v = PyNone then [] else str (dict_value v)) (attrs m))
                 models, None)"
    using write_models_records[OF h1 h2 h3, of str] by (simp only: record_cells_explicit)
next
  assume h: "distinct (map fst (fields S)) \<and> fields S \<noteq> [] \<and> rows \<noteq> [] \<and>
    (\<forall>line \<in> set rows. length line = length (fields S) \<and>
       (\<exists>vals. model (row_read (map fst (fields S)) line) = Constructed (Instance S vals) \<and>
               stores_cells str (row_read (map fst (fields S)) line) vals))"
  then have h1: "distinct (map fst (fields S))" and h2: "fields S \<noteq> []" and h3: "rows \<noteq> []"
    and h4: "\<forall>line \<in> set rows. length line = length (fields S) \<and>
       (\<exists>vals. model (row_read (map fst (fields S)) line) = Constructed (Instance S vals) \<and>
               stores_cells str (row_read (map fst (fields S)) line) vals)"
    by blast+
  show "\<exists>out. write_models_to_csv str
                (fst (read_models_from_csv model path (map fst (fields S) # rows))) None
                 = (map fst (fields S) # out, None) \<and>
              snd (read_models_from_csv model path (map fst (fields S) # rows)) = None \<and>
              map (map (\<lambda>c. c = [])) out = map (map (\<lambda>c. c = [])) rows"
    by (rule round_trip[OF h1 h2 h3 h4])
qed

theorem round_trip_counterexample:
  "read_models_from_csv ex_sized_model ''in.csv'' [[''name'', ''size'']] = ([], None) \<and>
   write_models_to_csv ex_str
       (fst (read_models_from_csv ex_sized_model ''in.csv'' [[''name'', ''size'']])) None
     = ([], Some StopIteration) \<and>
   write_models_to_csv ex_str
       (fst (read_models_from_csv ex_sized_model ''in.csv'' [[''size''], [''7'']])) None
     = ([[''name'', ''size''], ['''', ''7'']], None) \<and>
   write_models_to_csv ex_str
       (fst (read_models_from_csv ex_hash_model ''in.csv''
               [[''md5'', ''md5_error''], [''a'', ''b'']])) None
     = ([[''md5'', ''md5_error''], [''a'', '''']], None)"
  by (simp add: read_models_from_csv_def DictReader_def mk_row_def write_models_to_csv_def
      ex_sized_model_def ex_hash_model_def normalize_row_def is_digit_def ex_sized_def
      ex_hash_def writerow_def csv_cell_def)

theorem empty_absent_round_trip_witness:
  "distinct (map fst (fields ex_sized)) \<and> fields ex_sized \<noteq> [] \<and>
   list_all (\<lambda>line. length line = length (fields ex_sized) \<and>
       (\<exists>vals. ex_sized_model (row_read (map fst (fields ex_sized)) line)
                 = Constructed (Instance ex_sized vals) \<and>
               stores_cells ex_str (row_read (map fst (fields ex_sized)) line) vals))
     [[''a'', ''1''], ['''', ''22'']] \<and>
   ex_csv_ok = map fst (fields ex_sized) # [[''a'', ''1''], ['''', ''22'']] \<and>
   read_dict_from_csv ex_csv_ok None
     = [[(Some ''name'', Text ''a''), (Some ''size'', Text ''1'')],
        [(Some ''name'', Missing), (Some ''size'', Text ''22'')]] \<and>
   fst (read_models_from_csv ex_sized_model ''in.csv'' ex_csv_ok)
     = [Instance ex_sized [(''name'', Scalar ''str'' ''a''), (''size'', Scalar ''int'' ''1'')],
        Instance ex_sized [(''name'', PyNone), (''size'', Scalar ''int'' ''22'')]] \<and>
   write_models_to_csv ex_str
       [Instance ex_sized [(''name'', Scalar ''str'' ''a''), (''size'', Scalar ''int'' ''1'')],
        Instance ex_sized [(''name'', PyNone), (''size'', Scalar ''int'' ''22'')]] None
     = ([[''name'', ''size''], [''a'', ''1''], ['''', ''22'']], None) \<and>
   (\<exists>out. write_models_to_csv ex_str
            (fst (read_models_from_csv ex_sized_model ''in.csv'' ex_csv_ok)) None
             = ([''name'', ''size''] # out, None) \<and>
          snd (read_models_from_csv ex_sized_model ''in.csv'' ex_csv_ok) = None \<and>
          map (map (\<lambda>c. c = [])) out = [[False, False], [True, False]])"
proof -
  let ?rows = "[[''a'', ''1''], ['''', ''22'']]"
  let ?models = "[Instance ex_sized [(''name'', Scalar ''str'' ''a''), (''size'', Scalar ''int'' ''1'')],
                  Instance ex_sized [(''name'', PyNone), (''size'', Scalar ''int'' ''22'')]]"
  have f: "map fst (fields ex_sized) = [''name'', ''size'']" by (simp add: ex_sized_def)
  have h1: "distinct (map fst (fields ex_sized))" by (simp add: f)
  have h2: "fields ex_sized \<noteq> []" by (simp add: ex_sized_def)
  have l: "length (fields ex_sized) = 2" by (simp add: ex_sized_def)
  have h4l: "list_all (\<lambda>line. length line = length (fields ex_sized) \<and>
       (\<exists>vals. ex_sized_model (row_read (map fst (fields ex_sized)) line)
                 = Constructed (Instance ex_sized vals) \<and>
               stores_cells ex_str (row_read (map fst (fields ex_sized)) line) vals)) ?rows"
    by (simp add: f l row_read_def ex_sized_model_def is_digit_def stores_cells_def)
  then have h4: "\<forall>line \<in> set ?rows. length line = length (fields ex_sized) \<and>
       (\<exists>vals. ex_sized_model (row_read (map fst (fields ex_sized)) line)
                 = Constructed (Instance ex_sized vals) \<and>
               stores_cells ex_str (row_read (map fst (fields ex_sized)) line) vals)"
    by (simp only: list_all_iff)
  have h3: "\<forall>m \<in> set ?models. \<exists>vals. m = Instance ex_sized vals \<and>
              map fst vals = map fst (fields ex_sized)"
    by (simp add: f)
  have c: "ex_csv_ok = map fst (fields ex_sized) # ?rows" by (simp add: f ex_csv_ok_def)
  have r: "DictReader ex_csv_ok None
             = [(2, [(Some ''name'', Text ''a''), (Some ''size'', Text ''1'')]),
                (3, [(Some ''name'', Text []), (Some ''size'', Text ''22'')])]"
    by (simp add: DictReader_def mk_row_def ex_csv_ok_def)
  note t = empty_absent_round_trip[where f = ex_csv_ok and field_names = None
      and model = ex_sized_model and path = "''in.csv''" and S = ex_sized and str = ex_str
      and models = ?models and rows = ?rows]
  from t have a1: "read_dict_from_csv ex_csv_ok None
     = [[(Some ''name'', Text ''a''), (Some ''size'', Text ''1'')],
        [(Some ''name'', Missing), (Some ''size'', Text ''22'')]]"
    by (simp add: r)
  from t have a2: "fst (read_models_from_csv ex_sized_model ''in.csv'' ex_csv_ok) = ?models"
    by (simp add: r ex_sized_model_def is_digit_def)
  from t h1 h3 have b: "write_models_to_csv ex_str ?models None
     = ([[''name'', ''size''], [''a'', ''1''], ['''', ''22'']], None)"
    by (simp add: f)
  from t h1 h2 h4 have "\<exists>out. write_models_to_csv ex_str
            (fst (read_models_from_csv ex_sized_model ''in.csv'' (map fst (fields ex_sized) # ?rows))) None
             = (map fst (fields ex_sized) # out, None) \<and>
          snd (read_models_from_csv ex_sized_model ''in.csv'' (map fst (fields ex_sized) # ?rows)) = None \<and>
          map (map (\<lambda>c. c = [])) out = map (map (\<lambda>c. c = [])) ?rows"
    by blast
  then have "\<exists>out. write_models_to_csv ex_str
            (fst (read_models_from_csv ex_sized_model ''in.csv'' ex_csv_ok)) None
             = (map fst (fields ex_sized) # out, None) \<and>
          snd (read_models_from_csv ex_sized_model ''in.csv'' ex_csv_ok) = None \<and>
          map (map (\<lambda>c. c = [])) out = map (map (\<lambda>c. c = [])) ?rows"
    by (simp only: c[symmetric])
  then have d: "\<exists>out. write_models_to_csv ex_str
            (fst (read_models_from_csv ex_sized_model ''in.csv'' ex_csv_ok)) None
             = ([''name'', ''size''] # out, None) \<and>
          snd (read_models_from_csv ex_sized_model ''in.csv'' ex_csv_ok) = None \<and>
          map (map (\<lambda>c. c = [])) out = [[False, False], [True, False]]"
    by (simp add: f)
  from h1 h2 h4l c a1 a2 b d show ?thesis by blast
qed

end
